theory Spec2Isabelle
  imports Complex_Main
begin

section \<open>Entities\<close>

text \<open>
  The identifiers of package \<open>entities\<close> are unsigned integers handed out by the
  database; the code below only compares and stores them, so they are natural numbers.
  Go strings are byte sequences, as \<open>string\<close> is.
\<close>

type_synonym TagId = nat
type_synonym ValueId = nat
type_synonym FileId = nat

record Tag =
  Tag_Id :: TagId
  Tag_Name :: string

record Value =
  Value_Id :: ValueId
  Value_Name :: string

record Implication =
  ImplyingTag :: Tag
  ImpliedTag :: Tag

record FileTag =
  FileTag_FileId :: FileId
  FileTag_TagId :: TagId
  FileTag_ValueId :: ValueId

record File =
  File_Id :: FileId
  File_Path :: string
  File_Fingerprint :: string
  File_ModTime :: nat
  File_Size :: int
  File_IsDir :: bool

section \<open>Outcomes of Go code\<close>

text \<open>
  A Go function either panics or returns. What it returns is an \<open>error option\<close> for a
  function of result type \<open>error\<close> (\<open>None\<close> is \<open>nil\<close>), and \<open>error + 'a\<close> for a
  function of result type \<open>('a, error)\<close>.
\<close>

datatype error =
    SqlError string
  | NoSuchImplicationError TagId TagId
  | NoSuchValueError ValueId
  | InvalidTagName string
  | Duplicate string
  | FingerprintError string

datatype 'a go = Panic string | Return 'a

text \<open>
  \<open>strings.Repeat\<close> of the Go standard library panics when the count is negative. (It
  also panics when the length of the result overflows, which no list of ids reaches.)
\<close>

definition strings_Repeat :: "string \<Rightarrow> int \<Rightarrow> string go" where
  "strings_Repeat s count =
     (if count < 0 then Panic ''strings: negative Repeat count''
      else Return (concat (replicate (nat count) s)))"

section \<open>The database\<close>

text \<open>
  The tables of the schema the statements below touch, each a list of rows in row order.
\<close>

record Database =
  file_tbl :: "File list"
  tag_tbl :: "(TagId \<times> string) list"
  value_tbl :: "(ValueId \<times> string) list"
  file_tag :: "(FileId \<times> TagId \<times> ValueId) list"
  implication :: "(TagId \<times> TagId) list"

text \<open>
  \<open>db.Exec\<close> and \<open>db.ExecQuery\<close> hand a statement to the SQL engine. The engine may
  refuse it for reasons the tables do not determine (I/O, locking): the argument \<open>fault\<close>
  is the error it then reports, \<open>None\<close> when it carries the statement out. A statement
  that fails leaves the tables as they were.

  A query can also fail while its rows are read. The readers (\<open>readImplications\<close>,
  \<open>readValues\<close>) stop without an error when \<open>rows.Next()\<close> is false, and look at
  \<open>rows.Err()\<close> only after a row was found: a cursor that breaks after some rows gives
  these rows and no error. A failing \<open>rows.Scan\<close> is returned as the error.
\<close>

datatype query_fault = QueryFails error | CursorBreaksAfter nat | ScanFails error

definition db_ExecQuery :: "query_fault option \<Rightarrow> (Database \<Rightarrow> 'r list) \<Rightarrow> Database \<Rightarrow> error + 'r list" where
  "db_ExecQuery fault query db =
     (case fault of
        None \<Rightarrow> Inr (query db)
      | Some (QueryFails e) \<Rightarrow> Inl e
      | Some (CursorBreaksAfter n) \<Rightarrow> Inr (take n (query db))
      | Some (ScanFails e) \<Rightarrow> Inl e)"

definition db_Exec :: "error option \<Rightarrow> (Database \<Rightarrow> error + Database) \<Rightarrow> Database \<Rightarrow> error + Database" where
  "db_Exec fault stmt db = (case fault of Some e \<Rightarrow> Inl e | None \<Rightarrow> stmt db)"

subsection \<open>implication.go\<close>

text \<open>
  The rows of
  \<^verbatim>\<open>SELECT t1.id, t1.name, t2.id, t2.name FROM implication, tag t1, tag t2
    WHERE implication.tag_id IN (...) AND implication.tag_id = t1.id
    AND implication.implied_tag_id = t2.id\<close>
  read into \<open>entities.Implication\<close> values as \<open>readImplications\<close> does.
\<close>

definition select_implications_for_tags :: "TagId list \<Rightarrow> Database \<Rightarrow> Implication list" where
  "select_implications_for_tags params db =
     concat (map (\<lambda>i.
       concat (map (\<lambda>t1.
         concat (map (\<lambda>t2.
           if fst i \<in> set params \<and> fst i = fst t1 \<and> snd i = fst t2
           then [\<lparr>ImplyingTag = \<lparr>Tag_Id = fst t1, Tag_Name = snd t1\<rparr>,
                  ImpliedTag = \<lparr>Tag_Id = fst t2, Tag_Name = snd t2\<rparr>\<rparr>]
           else []) (tag_tbl db))) (tag_tbl db))) (implication db))"

definition ImplicationsForTags :: "query_fault option \<Rightarrow> Database \<Rightarrow> TagId list \<Rightarrow> (error + Implication list) go" where
  "ImplicationsForTags fault db tagIds =
     (case strings_Repeat '',?'' (int (length tagIds) - 1) of
        Panic msg \<Rightarrow> Panic msg
      | Return placeholders \<Rightarrow>
          Return (case db_ExecQuery fault (select_implications_for_tags tagIds) db of
                    Inl err \<Rightarrow> Inl err
                  | Inr implications \<Rightarrow> Inr implications))"

text \<open>
  \<open>AddImplication\<close>: \<^verbatim>\<open>INSERT OR IGNORE INTO implication (tag_id, implied_tag_id) VALUES (?1, ?2)\<close>.
  The primary key is the pair, so a row that is already there is ignored.
\<close>

definition insert_or_ignore_implication :: "TagId \<Rightarrow> TagId \<Rightarrow> Database \<Rightarrow> error + Database" where
  "insert_or_ignore_implication tagId impliedTagId db =
     Inr (if (tagId, impliedTagId) \<in> set (implication db) then db
          else db\<lparr>implication := implication db @ [(tagId, impliedTagId)]\<rparr>)"

definition AddImplication :: "error option \<Rightarrow> Database \<Rightarrow> TagId \<Rightarrow> TagId \<Rightarrow> error option \<times> Database" where
  "AddImplication fault db tagId impliedTagId =
     (case db_Exec fault (insert_or_ignore_implication tagId impliedTagId) db of
        Inl err \<Rightarrow> (Some err, db)
      | Inr db' \<Rightarrow> (None, db'))"

text \<open>
  \<open>UpdateImplicationsForTagId\<close> runs three statements: a \<^verbatim>\<open>DELETE\<close> of the two rows
  that join the two tags, then two \<^verbatim>\<open>UPDATE\<close>s that rename the first tag into the second,
  in the antecedent column and in the consequent column. An \<^verbatim>\<open>UPDATE\<close> that would
  produce two equal rows violates the primary key: the statement fails and changes nothing.
\<close>

definition delete_implication_between :: "TagId \<Rightarrow> TagId \<Rightarrow> Database \<Rightarrow> error + Database" where
  "delete_implication_between p1 p2 db =
     Inr (db\<lparr>implication :=
            filter (\<lambda>i. \<not> ((fst i = p1 \<and> snd i = p2) \<or> (fst i = p2 \<and> snd i = p1))) (implication db)\<rparr>)"

definition update_implication_tag_id :: "TagId \<Rightarrow> TagId \<Rightarrow> Database \<Rightarrow> error + Database" where
  "update_implication_tag_id p1 p2 db =
     (let rows = map (\<lambda>i. if fst i = p1 then (p2, snd i) else i) (implication db)
      in if distinct rows then Inr (db\<lparr>implication := rows\<rparr>)
         else Inl (SqlError ''UNIQUE constraint failed: implication.tag_id, implication.implied_tag_id''))"

definition update_implication_implied_tag_id :: "TagId \<Rightarrow> TagId \<Rightarrow> Database \<Rightarrow> error + Database" where
  "update_implication_implied_tag_id p1 p2 db =
     (let rows = map (\<lambda>i. if snd i = p1 then (fst i, p2) else i) (implication db)
      in if distinct rows then Inr (db\<lparr>implication := rows\<rparr>)
         else Inl (SqlError ''UNIQUE constraint failed: implication.tag_id, implication.implied_tag_id''))"

definition UpdateImplicationsForTagId ::
  "error option \<Rightarrow> error option \<Rightarrow> error option \<Rightarrow> Database \<Rightarrow> TagId \<Rightarrow> TagId \<Rightarrow> error option \<times> Database" where
  "UpdateImplicationsForTagId fault1 fault2 fault3 db implyingTagId impliedTagId =
     (case db_Exec fault1 (delete_implication_between implyingTagId impliedTagId) db of
        Inl err \<Rightarrow> (Some err, db)
      | Inr db1 \<Rightarrow>
          (case db_Exec fault2 (update_implication_tag_id implyingTagId impliedTagId) db1 of
             Inl err \<Rightarrow> (Some err, db1)
           | Inr db2 \<Rightarrow>
               (case db_Exec fault3 (update_implication_implied_tag_id implyingTagId impliedTagId) db2 of
                  Inl err \<Rightarrow> (Some err, db2)
                | Inr db3 \<Rightarrow> (None, db3))))"

text \<open>
  \<open>DeleteImplication\<close> deletes one row and looks at the number of rows affected: none
  is \<open>NoSuchImplicationError\<close>, more than one a panic. \<open>fault2\<close> is the error of
  \<open>result.RowsAffected()\<close>, if any.
\<close>

definition DeleteImplication ::
  "error option \<Rightarrow> error option \<Rightarrow> Database \<Rightarrow> TagId \<Rightarrow> TagId \<Rightarrow> (error option \<times> Database) go" where
  "DeleteImplication fault fault2 db tagId impliedTagId =
     (case fault of
        Some err \<Rightarrow> Return (Some err, db)
      | None \<Rightarrow>
          (let db' = db\<lparr>implication :=
                         filter (\<lambda>i. \<not> (fst i = tagId \<and> snd i = impliedTagId)) (implication db)\<rparr>;
               rowsAffected = length (filter (\<lambda>i. fst i = tagId \<and> snd i = impliedTagId) (implication db))
           in case fault2 of
                Some err \<Rightarrow> Return (Some err, db')
              | None \<Rightarrow>
                  if rowsAffected = 0 then Return (Some (NoSuchImplicationError tagId impliedTagId), db')
                  else if rowsAffected > 1 then Panic ''expected exactly one row to be affected''
                  else Return (None, db')))"

definition DeleteImplicationsForTagId :: "error option \<Rightarrow> Database \<Rightarrow> TagId \<Rightarrow> error option \<times> Database" where
  "DeleteImplicationsForTagId fault db tagId =
     (case fault of
        Some err \<Rightarrow> (Some err, db)
      | None \<Rightarrow>
          (None, db\<lparr>implication :=
                      filter (\<lambda>i. \<not> (fst i = tagId \<or> snd i = tagId)) (implication db)\<rparr>))"

text \<open>The invariant of the data model: no row of \<open>implication\<close> joins a tag to itself.\<close>

definition irreflexive :: "Database \<Rightarrow> bool" where
  "irreflexive db = list_all (\<lambda>i. fst i \<noteq> snd i) (implication db)"

text \<open>
  The operations on the implications, and the table after a sequence of them; a panic
  ends the sequence. The faults are those of the engine, one for each statement.
\<close>

datatype implication_op =
    OpAdd "error option" TagId TagId
  | OpUpdate "error option" "error option" "error option" TagId TagId
  | OpDelete "error option" "error option" TagId TagId
  | OpDeleteForTag "error option" TagId

fun run_op :: "implication_op \<Rightarrow> Database \<Rightarrow> Database option" where
  "run_op (OpAdd f a b) db = Some (snd (AddImplication f db a b))"
| "run_op (OpUpdate f1 f2 f3 a b) db = Some (snd (UpdateImplicationsForTagId f1 f2 f3 db a b))"
| "run_op (OpDelete f1 f2 a b) db =
     (case DeleteImplication f1 f2 db a b of Panic msg \<Rightarrow> None | Return r \<Rightarrow> Some (snd r))"
| "run_op (OpDeleteForTag f a) db = Some (snd (DeleteImplicationsForTagId f db a))"

fun run_ops :: "implication_op list \<Rightarrow> Database \<Rightarrow> Database option" where
  "run_ops [] db = Some db"
| "run_ops (opn # ops) db = (case run_op opn db of None \<Rightarrow> None | Some db' \<Rightarrow> run_ops ops db')"

fun adds_distinct :: "implication_op \<Rightarrow> bool" where
  "adds_distinct (OpAdd f a b) = (a \<noteq> b)"
| "adds_distinct _ = True"

subsection \<open>value.go\<close>

definition select_values_by_ids :: "ValueId list \<Rightarrow> Database \<Rightarrow> Value list" where
  "select_values_by_ids params db =
     map (\<lambda>v. \<lparr>Value_Id = fst v, Value_Name = snd v\<rparr>)
       (filter (\<lambda>v. fst v \<in> set params) (value_tbl db))"

definition ValuesByIds :: "query_fault option \<Rightarrow> Database \<Rightarrow> ValueId list \<Rightarrow> (error + Value list) go" where
  "ValuesByIds fault db ids =
     (case strings_Repeat '',?'' (int (length ids) - 1) of
        Panic msg \<Rightarrow> Panic msg
      | Return placeholders \<Rightarrow>
          Return (case db_ExecQuery fault (select_values_by_ids ids) db of
                    Inl err \<Rightarrow> Inl err
                  | Inr tags \<Rightarrow> Inr tags))"

definition select_values_by_names :: "string list \<Rightarrow> Database \<Rightarrow> Value list" where
  "select_values_by_names params db =
     map (\<lambda>v. \<lparr>Value_Id = fst v, Value_Name = snd v\<rparr>)
       (filter (\<lambda>v. snd v \<in> set params) (value_tbl db))"

definition ValuesByNames :: "query_fault option \<Rightarrow> Database \<Rightarrow> string list \<Rightarrow> (error + Value list) go" where
  "ValuesByNames fault db names =
     (if length names = 0 then Return (Inr [])
      else case strings_Repeat '',?'' (int (length names) - 1) of
             Panic msg \<Rightarrow> Panic msg
           | Return placeholders \<Rightarrow>
               Return (case db_ExecQuery fault (select_values_by_names names) db of
                         Inl err \<Rightarrow> Inl err
                       | Inr values \<Rightarrow> Inr values))"

text \<open>
  \<open>DeleteUnusedValues\<close>:
  \<^verbatim>\<open>DELETE FROM value WHERE id IN (...)
    AND id NOT IN (SELECT distinct(value_id) FROM file_tag WHERE id IN (...))\<close>.
  Table \<open>file_tag\<close> has no column \<open>id\<close>, so the inner \<open>id\<close> is the one of the row of
  \<open>value\<close> under test, which the outer condition already has among the parameters: the
  subquery is every \<open>value_id\<close> in use.
\<close>

definition delete_unused_values :: "ValueId list \<Rightarrow> Database \<Rightarrow> error + Database" where
  "delete_unused_values params db =
     Inr (db\<lparr>value_tbl :=
            filter (\<lambda>v. \<not> (fst v \<in> set params \<and>
                            fst v \<notin> set (map (\<lambda>ft. snd (snd ft))
                                             (filter (\<lambda>ft. fst v \<in> set params) (file_tag db)))))
                   (value_tbl db)\<rparr>)"

definition DeleteUnusedValues :: "error option \<Rightarrow> Database \<Rightarrow> ValueId list \<Rightarrow> (error option \<times> Database) go" where
  "DeleteUnusedValues fault db valueIds =
     (if length valueIds = 0 then Return (None, db)
      else case strings_Repeat '',?'' (int (length valueIds) - 1) of
             Panic msg \<Rightarrow> Panic msg
           | Return placeholders1 \<Rightarrow>
               (case strings_Repeat '',?'' (int (length valueIds) - 1) of
                  Panic msg \<Rightarrow> Panic msg
                | Return placeholders2 \<Rightarrow>
                    (case db_Exec fault (delete_unused_values valueIds) db of
                       Inl err \<Rightarrow> Return (None, db)
                     | Inr db' \<Rightarrow> Return (None, db'))))"

section \<open>The storage layer and the entities, as the tag command uses them\<close>

text \<open>
  The command works on a \<open>storage.Storage\<close>, which wraps the database, and on the
  collection types of package \<open>entities\<close>. The calls it makes are modelled here from the
  design's contract of the entity store and of the implication closure. Each call can fail
  in the engine: \<open>store_fault\<close> gives the error the engine reports for a call, if any.
\<close>

datatype store_call =
    Call_TagByName string
  | Call_AddTag string
  | Call_ValueByName string
  | Call_AddValue string
  | Call_FileByPath string
  | Call_AddFile string
  | Call_FileTagsByFileId FileId
  | Call_ImplicationsForTags "TagId list"
  | Call_AddFileTag FileId TagId ValueId

datatype errno = EPERM | ENOENT | EACCES | OtherErrno nat

record FileInfo =
  ModTime :: nat
  Size :: int
  IsDir :: bool

text \<open>
  What the operating system shows of a path: the results of \<open>os.Stat\<close> and \<open>os.Lstat\<close>,
  of \<open>os.Open\<close> and \<open>Readdirnames\<close>, and, for a directory, the entries under their names.
\<close>

datatype fsnode =
  FsNode (fs_stat: "errno + FileInfo") (fs_lstat: "errno + FileInfo")
         (fs_open: "errno option") (fs_readdir: "errno option")
         (fs_children: "(string \<times> fsnode) list")

text \<open>
  The environment of a command: the file system, the path functions, the fingerprint
  provider, the settings, and the faults of the engine. \<open>flag_for_implied\<close> is the value
  of the boolean argument of \<open>FileTagsByFileId\<close> that asks for the implied rows as well;
  the callers in the command only show that \<open>tagFrom\<close> passes \<open>true\<close> and
  \<open>removeAlreadyAppliedTagValuePairs\<close> passes \<open>false\<close>.
\<close>

record Env =
  fs :: "string \<Rightarrow> fsnode"
  filepath_Abs :: "string \<Rightarrow> string option"
  filepath_Join :: "string \<Rightarrow> string \<Rightarrow> string"
  fingerprint_Create :: "string \<Rightarrow> string \<Rightarrow> error + string"
  SettingAsString :: "string \<Rightarrow> error + string"
  SettingAsBool :: "string \<Rightarrow> error + bool"
  store_fault :: "store_call \<Rightarrow> error option"
  flag_for_implied :: bool

definition fresh_id :: "nat list \<Rightarrow> nat" where
  "fresh_id ids = Suc (fold max ids 0)"

text \<open>
  Modelled from the spec: \<open>storage.TagByName\<close> and \<open>storage.AddTag\<close> are not among the
  sources. A tag name is legal when it is not empty, is not \<open>.\<close> or \<open>..\<close>, and has no
  whitespace, none of \<open>= < > ( ) , /\<close> and no other character outside letters, digits,
  punctuation and symbols (of the bytes below 128 these are the control characters).
  \<open>add_tag\<close> validates the name and fails with \<open>InvalidTagName\<close> or \<open>Duplicate\<close>.
\<close>

definition illegal_tag_char :: "char \<Rightarrow> bool" where
  "illegal_tag_char c =
     (c \<in> set '' =<>(),/'' \<or> (of_char c :: nat) < 32 \<or> (of_char c :: nat) = 127)"

definition validateTagName :: "string \<Rightarrow> bool" where
  "validateTagName name =
     (name \<noteq> [] \<and> name \<noteq> ''.'' \<and> name \<noteq> ''..'' \<and> \<not> list_ex illegal_tag_char name)"

definition store_TagByName :: "Env \<Rightarrow> Database \<Rightarrow> string \<Rightarrow> error + Tag option" where
  "store_TagByName env db name =
     (case store_fault env (Call_TagByName name) of
        Some err \<Rightarrow> Inl err
      | None \<Rightarrow> Inr (map_option (\<lambda>t. \<lparr>Tag_Id = fst t, Tag_Name = snd t\<rparr>)
                        (find (\<lambda>t. snd t = name) (tag_tbl db))))"

definition store_AddTag :: "Env \<Rightarrow> Database \<Rightarrow> string \<Rightarrow> error + (Tag \<times> Database)" where
  "store_AddTag env db name =
     (if \<not> validateTagName name then Inl (InvalidTagName name)
      else case store_fault env (Call_AddTag name) of
        Some err \<Rightarrow> Inl err
      | None \<Rightarrow>
          if name \<in> set (map snd (tag_tbl db)) then Inl (Duplicate name)
          else let id = fresh_id (map fst (tag_tbl db))
               in Inr (\<lparr>Tag_Id = id, Tag_Name = name\<rparr>, db\<lparr>tag_tbl := tag_tbl db @ [(id, name)]\<rparr>))"

text \<open>
  Modelled from the spec: \<open>storage.ValueByName\<close> and \<open>storage.AddValue\<close> are not among
  the sources. The empty name is the reserved value of id 0, which is never stored;
  \<open>add_value\<close> of the empty name returns it without touching storage.
\<close>

definition store_ValueByName :: "Env \<Rightarrow> Database \<Rightarrow> string \<Rightarrow> error + Value option" where
  "store_ValueByName env db name =
     (if name = [] then Inr (Some \<lparr>Value_Id = 0, Value_Name = []\<rparr>)
      else case store_fault env (Call_ValueByName name) of
        Some err \<Rightarrow> Inl err
      | None \<Rightarrow> Inr (map_option (\<lambda>v. \<lparr>Value_Id = fst v, Value_Name = snd v\<rparr>)
                        (find (\<lambda>v. snd v = name) (value_tbl db))))"

definition store_AddValue :: "Env \<Rightarrow> Database \<Rightarrow> string \<Rightarrow> error + (Value \<times> Database)" where
  "store_AddValue env db name =
     (if name = [] then Inr (\<lparr>Value_Id = 0, Value_Name = []\<rparr>, db)
      else case store_fault env (Call_AddValue name) of
        Some err \<Rightarrow> Inl err
      | None \<Rightarrow>
          if name \<in> set (map snd (value_tbl db)) then Inl (Duplicate name)
          else let id = fresh_id (map fst (value_tbl db))
               in Inr (\<lparr>Value_Id = id, Value_Name = name\<rparr>,
                       db\<lparr>value_tbl := value_tbl db @ [(id, name)]\<rparr>))"

text \<open>
  Modelled from the spec: \<open>storage.FileByPath\<close> and \<open>storage.AddFile\<close> are not among the
  sources. \<open>file_by_path\<close> is an exact match on the stored path; \<open>add_file\<close> fails with
  \<open>Duplicate\<close> when the path exists and otherwise assigns a new id.
\<close>

definition store_FileByPath :: "Env \<Rightarrow> Database \<Rightarrow> string \<Rightarrow> error + File option" where
  "store_FileByPath env db path =
     (case store_fault env (Call_FileByPath path) of
        Some err \<Rightarrow> Inl err
      | None \<Rightarrow> Inr (find (\<lambda>f. File_Path f = path) (file_tbl db)))"

definition store_AddFile ::
  "Env \<Rightarrow> Database \<Rightarrow> string \<Rightarrow> string \<Rightarrow> nat \<Rightarrow> int \<Rightarrow> bool \<Rightarrow> error + (File \<times> Database)" where
  "store_AddFile env db path fingerprint modTime fileSize isDir =
     (case store_fault env (Call_AddFile path) of
        Some err \<Rightarrow> Inl err
      | None \<Rightarrow>
          if path \<in> set (map File_Path (file_tbl db)) then Inl (Duplicate path)
          else let f = \<lparr>File_Id = fresh_id (map File_Id (file_tbl db)), File_Path = path,
                         File_Fingerprint = fingerprint, File_ModTime = modTime,
                         File_Size = fileSize, File_IsDir = isDir\<rparr>
               in Inr (f, db\<lparr>file_tbl := file_tbl db @ [f]\<rparr>))"

text \<open>
  Modelled from the spec: \<open>storage.AddFileTag\<close> is not among the sources.
  \<open>add_file_tag\<close> upserts; a duplicate triple is a silent no-op.
\<close>

definition store_AddFileTag ::
  "Env \<Rightarrow> Database \<Rightarrow> FileId \<Rightarrow> TagId \<Rightarrow> ValueId \<Rightarrow> error + (FileTag \<times> Database)" where
  "store_AddFileTag env db fileId tagId valueId =
     (case store_fault env (Call_AddFileTag fileId tagId valueId) of
        Some err \<Rightarrow> Inl err
      | None \<Rightarrow>
          Inr (\<lparr>FileTag_FileId = fileId, FileTag_TagId = tagId, FileTag_ValueId = valueId\<rparr>,
               if (fileId, tagId, valueId) \<in> set (file_tag db) then db
               else db\<lparr>file_tag := file_tag db @ [(fileId, tagId, valueId)]\<rparr>))"

text \<open>
  Modelled from the spec: \<open>storage.ImplicationsForTags\<close> is not among the sources. The
  design has the caller of the one-hop query iterate it to a fixpoint with a worklist and
  a visited set, a tag that was visited being skipped; the result is the rows met on the
  way, that is the implications whose antecedent is in the closure of the given tags.
\<close>

function closure_from ::
  "(store_call \<Rightarrow> error option) \<Rightarrow> Database \<Rightarrow> TagId list \<Rightarrow> TagId list \<Rightarrow> Implication list
     \<Rightarrow> error + Implication list" where
  "closure_from fault db visited worklist found =
     (let work = remdups (filter (\<lambda>t. t \<notin> set visited) worklist) in
      if work = [] then Inr found
      else case fault (Call_ImplicationsForTags work) of
             Some err \<Rightarrow> Inl err
           | None \<Rightarrow>
               (let rows = select_implications_for_tags work db
                in closure_from fault db (visited @ work)
                     (map (\<lambda>i. Tag_Id (ImpliedTag i)) rows) (found @ rows)))"
  by pat_completeness auto
termination
proof (relation "measure (\<lambda>(fault, db, visited, worklist, found).
          card ((snd ` set (implication db) \<union> set worklist) - set visited))", goal_cases)
  case 1
  show ?case by simp
next
  case (2 fault db visited worklist found work rows)
  let ?I = "snd ` set (implication db)"
  have rows_sub: "set (map (\<lambda>i. Tag_Id (ImpliedTag i)) rows) \<subseteq> ?I"
    using 2 by (force simp: select_implications_for_tags_def split: if_splits)
  have work_eq: "set work = set worklist - set visited"
    using 2 by auto
  from 2 have "work \<noteq> []" by simp
  then obtain t where t: "t \<in> set work" by (cases work) auto
  have fin: "finite ((?I \<union> set worklist) - set visited)" by simp
  have "(?I \<union> set (map (\<lambda>i. Tag_Id (ImpliedTag i)) rows)) - set (visited @ work)
        \<subset> (?I \<union> set worklist) - set visited"
    using rows_sub work_eq t by auto
  then have "card ((?I \<union> set (map (\<lambda>i. Tag_Id (ImpliedTag i)) rows)) - set (visited @ work))
        < card ((?I \<union> set worklist) - set visited)"
    using fin by (rule psubset_card_mono[rotated])
  then show ?case by simp
qed

declare closure_from.simps [simp del]

definition store_ImplicationsForTags :: "Env \<Rightarrow> Database \<Rightarrow> TagId list \<Rightarrow> error + Implication list" where
  "store_ImplicationsForTags env db tagIds = closure_from (store_fault env) db [] tagIds []"

text \<open>
  Modelled from the spec: \<open>storage.FileTagsByFileId\<close> is not among the sources.
  \<open>file_tags_by_file_id\<close> returns the rows of the file and, when the implied ones are
  asked for, synthetic rows as well for every tag reachable through the implication
  closure; an implied tag carries no value.
\<close>

definition store_FileTagsByFileId :: "Env \<Rightarrow> Database \<Rightarrow> FileId \<Rightarrow> bool \<Rightarrow> error + FileTag list" where
  "store_FileTagsByFileId env db fileId flag =
     (case store_fault env (Call_FileTagsByFileId fileId) of
        Some err \<Rightarrow> Inl err
      | None \<Rightarrow>
          (let rows = map (\<lambda>ft. \<lparr>FileTag_FileId = fst ft, FileTag_TagId = fst (snd ft),
                                  FileTag_ValueId = snd (snd ft)\<rparr>)
                        (filter (\<lambda>ft. fst ft = fileId) (file_tag db))
           in if flag = flag_for_implied env
              then (case closure_from (store_fault env) db [] (map FileTag_TagId rows) [] of
                      Inl err \<Rightarrow> Inl err
                    | Inr implications \<Rightarrow>
                        Inr (rows @ map (\<lambda>t. \<lparr>FileTag_FileId = fileId, FileTag_TagId = t,
                                                 FileTag_ValueId = 0\<rparr>)
                                      (remdups (map (\<lambda>i. Tag_Id (ImpliedTag i)) implications))))
              else Inr rows))"

text \<open>
  Modelled from the spec: the two collection queries of package \<open>entities\<close> that
  \<open>removeAlreadyAppliedTagValuePairs\<close> uses. \<open>Contains\<close>: a pair already exists on the
  file; \<open>Implies\<close>: a tag is the consequent of one of the implications.
\<close>

definition Contains :: "FileTag list \<Rightarrow> TagId \<Rightarrow> ValueId \<Rightarrow> bool" where
  "Contains fileTags tagId valueId =
     list_ex (\<lambda>ft. FileTag_TagId ft = tagId \<and> FileTag_ValueId ft = valueId) fileTags"

definition Implies :: "Implication list \<Rightarrow> TagId \<Rightarrow> bool" where
  "Implies implications tagId = list_ex (\<lambda>i. Tag_Id (ImpliedTag i) = tagId) implications"

section \<open>The tag command\<close>

record TagValuePair =
  TagId :: TagId
  ValueId :: ValueId

text \<open>
  The errors the command handles: an \<open>*os.PathError\<close> of the operating system, an error of
  the storage layer, an error made by \<open>fmt.Errorf\<close> (its text is the path and the fixed
  part of the format), and \<open>errBlank\<close>. \<open>os.IsPermission\<close> and \<open>os.IsNotExist\<close> look at
  the error number of a path error and are false of every other error.
\<close>

datatype cli_error = PathError errno | StoreError error | Errorf string | errBlank

fun os_IsPermission :: "cli_error \<Rightarrow> bool" where
  "os_IsPermission (PathError e) = (e = EACCES \<or> e = EPERM)"
| "os_IsPermission _ = False"

fun os_IsNotExist :: "cli_error \<Rightarrow> bool" where
  "os_IsNotExist (PathError e) = (e = ENOENT)"
| "os_IsNotExist _ = False"

text \<open>
  The state a command changes: the database behind the store and the warnings that
  \<open>log.Warnf\<close> has written. (\<open>log.Infof\<close> is silent at the default verbosity.)
\<close>

record State =
  store :: Database
  stderr :: "string list"

definition log_Warnf :: "string \<Rightarrow> State \<Rightarrow> State" where
  "log_Warnf msg st = st\<lparr>stderr := stderr st @ [msg]\<rparr>"

text \<open>A name between single quotes, as the formats \<^verbatim>\<open>'%v'\<close> print it.\<close>

definition quoted :: "string \<Rightarrow> string" where
  "quoted name = [CHR 0x27] @ name @ [CHR 0x27]"

fun strings_Index :: "string \<Rightarrow> string \<Rightarrow> int" where
  "strings_Index [] sep = (if sep = [] then 0 else - 1)"
| "strings_Index (c # s) sep =
     (if take (length sep) (c # s) = sep then 0
      else (let i = strings_Index s sep in if i < 0 then - 1 else i + 1))"

definition getTag :: "Env \<Rightarrow> State \<Rightarrow> string \<Rightarrow> cli_error + Tag option" where
  "getTag env st tagName =
     (case store_TagByName env (store st) tagName of
        Inl err \<Rightarrow> Inl (Errorf (''could not look up tag '' @ quoted tagName))
      | Inr t \<Rightarrow> Inr t)"

definition createTag :: "Env \<Rightarrow> State \<Rightarrow> string \<Rightarrow> cli_error + (Tag \<times> State)" where
  "createTag env st tagName =
     (case store_AddTag env (store st) tagName of
        Inl err \<Rightarrow> Inl (Errorf (''could not create tag '' @ quoted tagName))
      | Inr (t, db') \<Rightarrow> Inr (t, log_Warnf (''New tag '' @ quoted tagName @ ''.'') (st\<lparr>store := db'\<rparr>)))"

definition getValue :: "Env \<Rightarrow> State \<Rightarrow> string \<Rightarrow> cli_error + Value option" where
  "getValue env st valueName =
     (case store_ValueByName env (store st) valueName of
        Inl err \<Rightarrow> Inl (Errorf (''could not look up value '' @ quoted valueName))
      | Inr v \<Rightarrow> Inr v)"

definition createValue :: "Env \<Rightarrow> State \<Rightarrow> string \<Rightarrow> cli_error + (Value \<times> State)" where
  "createValue env st valueName =
     (case store_AddValue env (store st) valueName of
        Inl err \<Rightarrow> Inl (StoreError err)
      | Inr (v, db') \<Rightarrow> Inr (v, log_Warnf (''New value '' @ quoted valueName @ ''.'') (st\<lparr>store := db'\<rparr>)))"

subsection \<open>Resolving the tag arguments (\<open>tagPaths\<close>, first loop)\<close>

definition splitTagArg :: "string \<Rightarrow> string \<times> string" where
  "splitTagArg tagArg =
     (let index = strings_Index tagArg ''=''
      in if index = - 1 \<or> index = 0 then (tagArg, [])
         else (take (nat index) tagArg, drop (nat (index + 1)) tagArg))"

datatype 'a resolved = Resolved 'a State | Skipped State | Failed cli_error

definition resolveTag :: "Env \<Rightarrow> bool \<Rightarrow> string \<Rightarrow> Tag option \<Rightarrow> State \<Rightarrow> Tag resolved" where
  "resolveTag env autoCreateTags tagName found st =
     (case found of
        Some t \<Rightarrow> Resolved t st
      | None \<Rightarrow>
          if autoCreateTags
          then (case createTag env st tagName of
                  Inl err \<Rightarrow> Failed err
                | Inr (t, st') \<Rightarrow> Resolved t st')
          else Skipped (log_Warnf (''no such tag '' @ quoted tagName @ ''.'') st))"

definition resolveValue :: "Env \<Rightarrow> bool \<Rightarrow> string \<Rightarrow> Value option \<Rightarrow> State \<Rightarrow> Value resolved" where
  "resolveValue env autoCreateValues valueName found st =
     (case found of
        Some v \<Rightarrow> Resolved v st
      | None \<Rightarrow>
          if autoCreateValues
          then (case createValue env st valueName of
                  Inl err \<Rightarrow> Failed err
                | Inr (v, st') \<Rightarrow> Resolved v st')
          else Skipped (log_Warnf (''no such value '' @ quoted valueName @ ''.'') st))"

fun tagArgsLoop ::
  "Env \<Rightarrow> bool \<Rightarrow> bool \<Rightarrow> string list \<Rightarrow> State \<Rightarrow> bool \<Rightarrow> TagValuePair list
     \<Rightarrow> cli_error option \<times> State \<times> bool \<times> TagValuePair list" where
  "tagArgsLoop env autoCreateTags autoCreateValues [] st wereErrors tagValuePairs =
     (None, st, wereErrors, tagValuePairs)"
| "tagArgsLoop env autoCreateTags autoCreateValues (tagArg # rest) st wereErrors tagValuePairs =
     (case getTag env st (fst (splitTagArg tagArg)) of
        Inl err \<Rightarrow> (Some err, st, wereErrors, tagValuePairs)
      | Inr foundTag \<Rightarrow>
          (case resolveTag env autoCreateTags (fst (splitTagArg tagArg)) foundTag st of
             Failed err \<Rightarrow> (Some err, st, wereErrors, tagValuePairs)
           | Skipped st1 \<Rightarrow>
               tagArgsLoop env autoCreateTags autoCreateValues rest st1 True tagValuePairs
           | Resolved t st1 \<Rightarrow>
               (case getValue env st1 (snd (splitTagArg tagArg)) of
                  Inl err \<Rightarrow> (Some err, st1, wereErrors, tagValuePairs)
                | Inr foundValue \<Rightarrow>
                    (case resolveValue env autoCreateValues (snd (splitTagArg tagArg)) foundValue st1 of
                       Failed err \<Rightarrow> (Some err, st1, wereErrors, tagValuePairs)
                     | Skipped st2 \<Rightarrow>
                         tagArgsLoop env autoCreateTags autoCreateValues rest st2 True tagValuePairs
                     | Resolved v st2 \<Rightarrow>
                         tagArgsLoop env autoCreateTags autoCreateValues rest st2 wereErrors
                           (tagValuePairs @ [\<lparr>TagId = Tag_Id t, ValueId = Value_Id v\<rparr>])))))"

subsection \<open>Tagging one path (\<open>tagPath\<close>)\<close>

definition tagPath_stat :: "fsnode \<Rightarrow> string \<Rightarrow> State \<Rightarrow> cli_error + (FileInfo \<times> State)" where
  "tagPath_stat node path st =
     (case fs_stat node of
        Inr stat \<Rightarrow> Inr (stat, st)
      | Inl err \<Rightarrow>
          if os_IsNotExist (PathError err)
          then (case fs_lstat node of
                  Inl err' \<Rightarrow> Inl (PathError err')
                | Inr stat \<Rightarrow> Inr (stat, log_Warnf (path @ '': tagging broken symbolic link'') st))
          else Inl (PathError err))"

definition addFile :: "Env \<Rightarrow> Database \<Rightarrow> string \<Rightarrow> nat \<Rightarrow> int \<Rightarrow> bool \<Rightarrow> string \<Rightarrow> cli_error + (File \<times> Database)" where
  "addFile env db path modTime fileSize isDir fingerprintAlgorithm =
     (case fingerprint_Create env path fingerprintAlgorithm of
        Inl err \<Rightarrow> Inl (Errorf (path @ '': could not create fingerprint''))
      | Inr fingerprint \<Rightarrow>
          (case store_AddFile env db path fingerprint modTime fileSize isDir of
             Inl err \<Rightarrow> Inl (Errorf (path @ '': could not add file to database''))
           | Inr r \<Rightarrow> Inr r))"

definition tagPath_file :: "Env \<Rightarrow> string \<Rightarrow> string \<Rightarrow> FileInfo \<Rightarrow> string \<Rightarrow> State \<Rightarrow> cli_error + (File \<times> State)" where
  "tagPath_file env path absPath stat fingerprintAlgorithm st =
     (case store_FileByPath env (store st) absPath of
        Inl err \<Rightarrow> Inl (Errorf (path @ '': could not retrieve file''))
      | Inr (Some f) \<Rightarrow> Inr (f, st)
      | Inr None \<Rightarrow>
          (case addFile env (store st) absPath (ModTime stat) (Size stat) (IsDir stat) fingerprintAlgorithm of
             Inl err \<Rightarrow> Inl (Errorf (path @ '': could not add file''))
           | Inr (f, db') \<Rightarrow> Inr (f, st\<lparr>store := db'\<rparr>)))"

fun revisedTagValuePairs :: "FileTag list \<Rightarrow> Implication list \<Rightarrow> TagValuePair list \<Rightarrow> TagValuePair list" where
  "revisedTagValuePairs existingFileTags newlyImpliedTags [] = []"
| "revisedTagValuePairs existingFileTags newlyImpliedTags (tagValuePair # rest) =
     (if Contains existingFileTags (TagId tagValuePair) (ValueId tagValuePair)
      then revisedTagValuePairs existingFileTags newlyImpliedTags rest
      else if ValueId tagValuePair = 0 \<and> Implies newlyImpliedTags (TagId tagValuePair)
      then revisedTagValuePairs existingFileTags newlyImpliedTags rest
      else tagValuePair # revisedTagValuePairs existingFileTags newlyImpliedTags rest)"

definition removeAlreadyAppliedTagValuePairs ::
  "Env \<Rightarrow> Database \<Rightarrow> TagValuePair list \<Rightarrow> File \<Rightarrow> cli_error + TagValuePair list" where
  "removeAlreadyAppliedTagValuePairs env db tagValuePairs f =
     (case store_FileTagsByFileId env db (File_Id f) False of
        Inl err \<Rightarrow> Inl (Errorf (File_Path f @ '': could not determine file's tags''))
      | Inr existingFileTags \<Rightarrow>
          (case store_ImplicationsForTags env db (map TagId tagValuePairs) of
             Inl err \<Rightarrow> Inl (Errorf (File_Path f @ '': could not determine implied tags''))
           | Inr newlyImpliedTags \<Rightarrow>
               Inr (revisedTagValuePairs existingFileTags newlyImpliedTags tagValuePairs)))"

definition tagPath_revise ::
  "Env \<Rightarrow> Database \<Rightarrow> string \<Rightarrow> TagValuePair list \<Rightarrow> File \<Rightarrow> bool \<Rightarrow> cli_error + TagValuePair list" where
  "tagPath_revise env db path tagValuePairs f explicit =
     (if \<not> explicit
      then (case removeAlreadyAppliedTagValuePairs env db tagValuePairs f of
              Inl err \<Rightarrow> Inl (Errorf (path @ '': could not remove applied tags''))
            | Inr revised \<Rightarrow> Inr revised)
      else Inr tagValuePairs)"

fun tagPath_apply :: "Env \<Rightarrow> File \<Rightarrow> TagValuePair list \<Rightarrow> State \<Rightarrow> cli_error option \<times> State" where
  "tagPath_apply env f [] st = (None, st)"
| "tagPath_apply env f (tagValuePair # rest) st =
     (case store_AddFileTag env (store st) (File_Id f) (TagId tagValuePair) (ValueId tagValuePair) of
        Inl err \<Rightarrow> (Some (Errorf (File_Path f @ '': could not apply tags'')), st)
      | Inr (ft, db') \<Rightarrow> tagPath_apply env f rest (st\<lparr>store := db'\<rparr>))"

text \<open>
  The part of \<open>tagPath\<close> before the descent: the absolute path, the stat, the file row,
  the revision of the pairs and their application. It ends \<open>tagPath\<close> with an error
  (\<open>Inl\<close>), or hands on the stat, the pairs it applied and the state.
\<close>

definition tagPath_here ::
  "Env \<Rightarrow> string \<Rightarrow> fsnode \<Rightarrow> TagValuePair list \<Rightarrow> bool \<Rightarrow> string \<Rightarrow> State
     \<Rightarrow> (cli_error \<times> State) + (FileInfo \<times> TagValuePair list \<times> State)" where
  "tagPath_here env path node tagValuePairs explicit fingerprintAlgorithm st =
     (case filepath_Abs env path of
        None \<Rightarrow> Inl (Errorf (path @ '': could not get absolute path''), st)
      | Some absPath \<Rightarrow>
          (case tagPath_stat node path st of
             Inl err \<Rightarrow> Inl (err, st)
           | Inr (stat, st1) \<Rightarrow>
               (case tagPath_file env path absPath stat fingerprintAlgorithm st1 of
                  Inl err \<Rightarrow> Inl (err, st1)
                | Inr (f, st2) \<Rightarrow>
                    (case tagPath_revise env (store st2) path tagValuePairs f explicit of
                       Inl err \<Rightarrow> Inl (err, st2)
                     | Inr revised \<Rightarrow>
                         (case tagPath_apply env f revised st2 of
                            (Some err, st3) \<Rightarrow> Inl (err, st3)
                          | (None, st3) \<Rightarrow> Inr (stat, revised, st3))))))"

text \<open>
  \<open>tagPath\<close> and \<open>tagRecursively\<close> call each other down the directory tree; the loop of
  \<open>tagRecursively\<close> over the entries is \<open>tagChildren\<close>. The pairs handed down are the
  ones \<open>tagPath\<close> holds after its revision.
\<close>

function tagPath ::
    "Env \<Rightarrow> string \<Rightarrow> fsnode \<Rightarrow> TagValuePair list \<Rightarrow> bool \<Rightarrow> bool \<Rightarrow> string \<Rightarrow> State
       \<Rightarrow> cli_error option \<times> State"
  and tagRecursively ::
    "Env \<Rightarrow> string \<Rightarrow> errno option \<Rightarrow> errno option \<Rightarrow> (string \<times> fsnode) list
       \<Rightarrow> TagValuePair list \<Rightarrow> bool \<Rightarrow> string \<Rightarrow> State \<Rightarrow> cli_error option \<times> State"
  and tagChildren ::
    "Env \<Rightarrow> string \<Rightarrow> (string \<times> fsnode) list \<Rightarrow> TagValuePair list \<Rightarrow> bool \<Rightarrow> string \<Rightarrow> State
       \<Rightarrow> cli_error option \<times> State"
where
  "tagPath env path (FsNode statR lstatR openR readdirR children) tagValuePairs explicit recursive
       fingerprintAlgorithm st =
     (case tagPath_here env path (FsNode statR lstatR openR readdirR children) tagValuePairs
             explicit fingerprintAlgorithm st of
        Inl (err, st') \<Rightarrow> (Some err, st')
      | Inr (stat, revised, st3) \<Rightarrow>
          if recursive \<and> IsDir stat
          then tagRecursively env path openR readdirR children revised explicit
                 fingerprintAlgorithm st3
          else (None, st3))"
| "tagRecursively env path openR readdirR children tagValuePairs explicit fingerprintAlgorithm st =
     (case openR of
        Some err \<Rightarrow> (Some (Errorf (path @ '': could not open path'')), st)
      | None \<Rightarrow>
          (case readdirR of
             Some err \<Rightarrow> (Some (Errorf (path @ '': could not retrieve directory contents'')), st)
           | None \<Rightarrow> tagChildren env path children tagValuePairs explicit fingerprintAlgorithm st))"
| "tagChildren env path [] tagValuePairs explicit fingerprintAlgorithm st = (None, st)"
| "tagChildren env path (child # rest) tagValuePairs explicit fingerprintAlgorithm st =
     (case tagPath env (filepath_Join env path (fst child)) (snd child) tagValuePairs explicit True
             fingerprintAlgorithm st of
        (Some err, st') \<Rightarrow> (Some err, st')
      | (None, st') \<Rightarrow> tagChildren env path rest tagValuePairs explicit fingerprintAlgorithm st')"
  by pat_completeness auto
termination
  by (relation "measure (\<lambda>x. case x of
         Inl (env, path, node, r) \<Rightarrow> 3 * size node
       | Inr (Inl (env, path, openR, readdirR, children, r)) \<Rightarrow>
           3 * size_list (size_prod (\<lambda>x. 0) size) children + 2
       | Inr (Inr (env, path, children, r)) \<Rightarrow>
           3 * size_list (size_prod (\<lambda>x. 0) size) children + 1)") auto

subsection \<open>The loop over the paths (\<open>tagPaths\<close> and \<open>tagFrom\<close>)\<close>

text \<open>
  Both functions end in the same loop: a path whose \<open>tagPath\<close> fails with a
  permission or a no-such-file error is warned about and \<open>wereErrors\<close> is set; any other
  error is returned at once. After the loop \<open>errBlank\<close> is returned if \<open>wereErrors\<close>.
\<close>

fun tagEachPath ::
  "Env \<Rightarrow> TagValuePair list \<Rightarrow> bool \<Rightarrow> bool \<Rightarrow> string \<Rightarrow> string list \<Rightarrow> State \<Rightarrow> bool
     \<Rightarrow> cli_error option \<times> State \<times> bool" where
  "tagEachPath env tagValuePairs explicit recursive fingerprintAlgorithm [] st wereErrors =
     (None, st, wereErrors)"
| "tagEachPath env tagValuePairs explicit recursive fingerprintAlgorithm (path # rest) st wereErrors =
     (case tagPath env path (fs env path) tagValuePairs explicit recursive fingerprintAlgorithm st of
        (None, st') \<Rightarrow>
          tagEachPath env tagValuePairs explicit recursive fingerprintAlgorithm rest st' wereErrors
      | (Some err, st') \<Rightarrow>
          if os_IsPermission err
          then tagEachPath env tagValuePairs explicit recursive fingerprintAlgorithm rest
                 (log_Warnf (path @ '': permisison denied'') st') True
          else if os_IsNotExist err
          then tagEachPath env tagValuePairs explicit recursive fingerprintAlgorithm rest
                 (log_Warnf (path @ '': no such file'') st') True
          else (Some (Errorf (path @ '': could not stat file'')), st', wereErrors))"

definition tagAllPaths ::
  "Env \<Rightarrow> TagValuePair list \<Rightarrow> bool \<Rightarrow> bool \<Rightarrow> string \<Rightarrow> string list \<Rightarrow> State \<Rightarrow> bool
     \<Rightarrow> cli_error option \<times> State" where
  "tagAllPaths env tagValuePairs explicit recursive fingerprintAlgorithm paths st wereErrors =
     (case tagEachPath env tagValuePairs explicit recursive fingerprintAlgorithm paths st wereErrors of
        (Some err, st', w) \<Rightarrow> (Some err, st')
      | (None, st', w) \<Rightarrow> if w then (Some errBlank, st') else (None, st'))"

definition tagPaths ::
  "Env \<Rightarrow> State \<Rightarrow> string list \<Rightarrow> string list \<Rightarrow> bool \<Rightarrow> bool \<Rightarrow> cli_error option \<times> State" where
  "tagPaths env st tagArgs paths explicit recursive =
     (case SettingAsString env ''fingerprintAlgorithm'' of
        Inl err \<Rightarrow> (Some (StoreError err), st)
      | Inr fingerprintAlgorithm \<Rightarrow>
          (case SettingAsBool env ''autoCreateTags'' of
             Inl err \<Rightarrow> (Some (StoreError err), st)
           | Inr autoCreateTags \<Rightarrow>
               (case SettingAsBool env ''autoCreateValues'' of
                  Inl err \<Rightarrow> (Some (StoreError err), st)
                | Inr autoCreateValues \<Rightarrow>
                    (case tagArgsLoop env autoCreateTags autoCreateValues tagArgs st False [] of
                       (Some err, st1, wereErrors, tagValuePairs) \<Rightarrow> (Some err, st1)
                     | (None, st1, wereErrors, tagValuePairs) \<Rightarrow>
                         tagAllPaths env tagValuePairs explicit recursive fingerprintAlgorithm
                           paths st1 wereErrors))))"

definition tagFrom ::
  "Env \<Rightarrow> State \<Rightarrow> string \<Rightarrow> string list \<Rightarrow> bool \<Rightarrow> bool \<Rightarrow> cli_error option \<times> State" where
  "tagFrom env st fromPath paths explicit recursive =
     (case SettingAsString env ''fingerprintAlgorithm'' of
        Inl err \<Rightarrow> (Some (Errorf ''could not retrieve fingerprint algorithm''), st)
      | Inr fingerprintAlgorithm \<Rightarrow>
          (case store_FileByPath env (store st) fromPath of
             Inl err \<Rightarrow> (Some (Errorf (fromPath @ '': could not retrieve file'')), st)
           | Inr None \<Rightarrow> (Some (Errorf ''path is not tagged''), st)
           | Inr (Some f) \<Rightarrow>
               (case store_FileTagsByFileId env (store st) (File_Id f) True of
                  Inl err \<Rightarrow> (Some (Errorf (fromPath @ '': could not retrieve filetags'')), st)
                | Inr fileTags \<Rightarrow>
                    tagAllPaths env
                      (map (\<lambda>fileTag. \<lparr>TagId = FileTag_TagId fileTag, ValueId = FileTag_ValueId fileTag\<rparr>)
                         fileTags)
                      explicit recursive fingerprintAlgorithm paths st False)))"

section \<open>The files command and the query language\<close>

text \<open>
  Modelled from the spec: the lexer, the parser, the query compiler and the lister behind
  \<open>FilesCommand.Exec\<close> are not among the sources, which hold the command's tests only.
  The definitions of this section follow the design of the query language: its
  tokenisation notes, its grammar, the lowering of a query to sets of files, and the
  lister. Quoting is left out: the lexer below reads unquoted text.
\<close>

subsection \<open>Tokens\<close>

datatype cmp_op = Eq | Ne | Lt | Gt | Le | Ge

datatype token = TSym string | TAnd | TOr | TNot | TOpen | TClose | TCmp cmp_op

text \<open>
  Keywords and comparison aliases are recognised only as whole words.
\<close>

definition word_token :: "string \<Rightarrow> token" where
  "word_token w =
     (if w = ''and'' then TAnd else if w = ''or'' then TOr else if w = ''not'' then TNot
      else if w = ''eq'' then TCmp Eq else if w = ''ne'' then TCmp Ne
      else if w = ''lt'' then TCmp Lt else if w = ''gt'' then TCmp Gt
      else if w = ''le'' then TCmp Le else if w = ''ge'' then TCmp Ge
      else TSym w)"

definition flush :: "string \<Rightarrow> token list" where
  "flush w = (if w = [] then [] else [word_token w])"

definition isSpace :: "char \<Rightarrow> bool" where
  "isSpace c = (c \<in> set [CHR '' '', CHR 0x09, CHR 0x0A, CHR 0x0B, CHR 0x0C, CHR 0x0D])"

definition two_char_op :: "char \<Rightarrow> char \<Rightarrow> cmp_op option" where
  "two_char_op c d =
     (if d \<noteq> CHR ''='' then None
      else if c = CHR ''='' then Some Eq else if c = CHR ''!'' then Some Ne
      else if c = CHR ''<'' then Some Le else if c = CHR ''>'' then Some Ge else None)"

definition one_char_op :: "char \<Rightarrow> token option" where
  "one_char_op c =
     (if c = CHR ''='' then Some (TCmp Eq) else if c = CHR ''<'' then Some (TCmp Lt)
      else if c = CHR ''>'' then Some (TCmp Gt) else if c = CHR ''('' then Some TOpen
      else if c = CHR '')'' then Some TClose else None)"

text \<open>
  \<open>lex w cs\<close> reads the characters \<open>cs\<close> with the word \<open>w\<close> begun: an operator symbol or
  white space ends the word.
\<close>

fun lex :: "string \<Rightarrow> string \<Rightarrow> token list" where
  "lex w [] = flush w"
| "lex w [c] =
     (case one_char_op c of
        Some t \<Rightarrow> flush w @ [t]
      | None \<Rightarrow> if isSpace c then flush w else flush (w @ [c]))"
| "lex w (c # d # cs) =
     (case two_char_op c d of
        Some opr \<Rightarrow> flush w @ TCmp opr # lex [] cs
      | None \<Rightarrow>
          (case one_char_op c of
             Some t \<Rightarrow> flush w @ t # lex [] (d # cs)
           | None \<Rightarrow> if isSpace c then flush w @ lex [] (d # cs) else lex (w @ [c]) (d # cs)))"

text \<open>Each argument is retokenised on its own.\<close>

definition tokenize :: "string list \<Rightarrow> token list" where
  "tokenize args = concat (map (lex []) args)"

subsection \<open>Parser\<close>

datatype expr =
    AndE expr expr
  | OrE expr expr
  | NotE expr
  | TagE string
  | Comparison string cmp_op string

datatype parse_error = ParseError nat string


text \<open>
  First the comparisons, which bind tightest: a name followed by a comparison operator
  and a literal is one operand, a name alone is a tag.
\<close>

datatype item = IOperand expr | IAnd | IOr | INot | IOpen | IClose

definition item_of :: "token \<Rightarrow> item" where
  "item_of t =
     (if t = TAnd then IAnd else if t = TOr then IOr else if t = TNot then INot
      else if t = TOpen then IOpen else IClose)"

fun operands :: "nat \<Rightarrow> token list \<Rightarrow> parse_error + item list" where
  "operands pos [] = Inr []"
| "operands pos (t # rest) =
     (case t of
        TSym name \<Rightarrow>
          (case rest of
             TCmp opr # rest' \<Rightarrow>
               (case rest' of
                  TSym lit # rest'' \<Rightarrow>
                    (case operands (pos + 3) rest'' of
                       Inl err \<Rightarrow> Inl err
                     | Inr items \<Rightarrow> Inr (IOperand (Comparison name opr lit) # items))
                | _ \<Rightarrow> Inl (ParseError (pos + 2) ''value expected''))
           | _ \<Rightarrow>
               (case operands (pos + 1) rest of
                  Inl err \<Rightarrow> Inl err
                | Inr items \<Rightarrow> Inr (IOperand (TagE name) # items)))
      | TCmp opr \<Rightarrow> Inl (ParseError pos ''tag expected'')
      | _ \<Rightarrow>
          (case operands (pos + 1) rest of
             Inl err \<Rightarrow> Inl err
           | Inr items \<Rightarrow> Inr (item_of t # items)))"

text \<open>
  Then \<open>or\<close>, \<open>and\<close> (or juxtaposition) and \<open>not\<close>, all left-associative, in this order of
  precedence from low to high. A frame holds, for the parenthesis being read, the
  disjunction and the conjunction gathered so far, the number of pending \<open>not\<close>s and
  whether an operand must come next.
\<close>

record frame =
  disj :: "expr option"
  conj :: "expr option"
  nots :: nat
  need :: bool

definition new_frame :: frame where
  "new_frame = \<lparr>disj = None, conj = None, nots = 0, need = False\<rparr>"

definition push_operand :: "expr \<Rightarrow> frame \<Rightarrow> frame" where
  "push_operand e fr =
     (let e' = (NotE ^^ nots fr) e
      in fr\<lparr>conj := Some (case conj fr of None \<Rightarrow> e' | Some l \<Rightarrow> AndE l e'),
             nots := 0, need := False\<rparr>)"

definition close_frame :: "frame \<Rightarrow> expr option" where
  "close_frame fr =
     (if need fr \<or> nots fr \<noteq> 0 then None
      else case conj fr of
             None \<Rightarrow> None
           | Some r \<Rightarrow> Some (case disj fr of None \<Rightarrow> r | Some l \<Rightarrow> OrE l r))"

fun parse_items :: "nat \<Rightarrow> frame \<Rightarrow> frame list \<Rightarrow> item list \<Rightarrow> parse_error + expr" where
  "parse_items pos fr stack [] =
     (if stack \<noteq> [] then Inl (ParseError pos ''closing parenthesis expected'')
      else case close_frame fr of
             None \<Rightarrow> Inl (ParseError pos ''operand expected'')
           | Some e \<Rightarrow> Inr e)"
| "parse_items pos fr stack (IOperand e # rest) =
     parse_items (pos + 1) (push_operand e fr) stack rest"
| "parse_items pos fr stack (INot # rest) =
     parse_items (pos + 1) (fr\<lparr>nots := nots fr + 1, need := True\<rparr>) stack rest"
| "parse_items pos fr stack (IAnd # rest) =
     (if conj fr = None \<or> need fr then Inl (ParseError pos ''operand expected'')
      else parse_items (pos + 1) (fr\<lparr>need := True\<rparr>) stack rest)"
| "parse_items pos fr stack (IOr # rest) =
     (if need fr then Inl (ParseError pos ''operand expected'')
      else case conj fr of
             None \<Rightarrow> Inl (ParseError pos ''operand expected'')
           | Some r \<Rightarrow>
               parse_items (pos + 1)
                 (fr\<lparr>disj := Some (case disj fr of None \<Rightarrow> r | Some l \<Rightarrow> OrE l r),
                      conj := None, need := True\<rparr>) stack rest)"
| "parse_items pos fr stack (IOpen # rest) =
     parse_items (pos + 1) new_frame (fr # stack) rest"
| "parse_items pos fr stack (IClose # rest) =
     (case stack of
        [] \<Rightarrow> Inl (ParseError pos ''unexpected closing parenthesis'')
      | outer # stack' \<Rightarrow>
          (case close_frame fr of
             None \<Rightarrow> Inl (ParseError pos ''operand expected'')
           | Some e \<Rightarrow> parse_items (pos + 1) (push_operand e outer) stack' rest))"

text \<open>The empty query has no expression: it matches every file.\<close>

definition parse :: "token list \<Rightarrow> parse_error + expr option" where
  "parse ts =
     (if ts = [] then Inr None
      else case operands 0 ts of
             Inl err \<Rightarrow> Inl err
           | Inr items \<Rightarrow>
               (case parse_items 0 new_frame [] items of
                  Inl err \<Rightarrow> Inl err
                | Inr e \<Rightarrow> Inr (Some e)))"

subsection \<open>Comparing values\<close>

text \<open>
  A signed decimal is an optional sign, digits, and optionally a point and more digits.
  It is read as a mantissa and a number of decimal places: \<open>(m, k)\<close> stands for
  \<open>m / 10 ^ k\<close>.
\<close>

definition digit_val :: "char \<Rightarrow> nat option" where
  "digit_val c = (if c \<in> set ''0123456789'' then Some (of_char c - 48) else None)"

fun digits_val :: "nat \<Rightarrow> string \<Rightarrow> nat option" where
  "digits_val acc [] = Some acc"
| "digits_val acc (c # cs) =
     (case digit_val c of None \<Rightarrow> None | Some d \<Rightarrow> digits_val (10 * acc + d) cs)"

definition parse_unsigned :: "string \<Rightarrow> (nat \<times> nat) option" where
  "parse_unsigned s =
     (let ip = takeWhile (\<lambda>c. c \<noteq> CHR ''.'') s;
          rest = dropWhile (\<lambda>c. c \<noteq> CHR ''.'') s
      in if rest = []
         then (if ip = [] then None else map_option (\<lambda>m. (m, 0)) (digits_val 0 ip))
         else if ip = [] \<or> tl rest = [] then None
         else map_option (\<lambda>m. (m, length (tl rest))) (digits_val 0 (ip @ tl rest)))"

definition parse_decimal :: "string \<Rightarrow> (int \<times> nat) option" where
  "parse_decimal s =
     (case s of
        [] \<Rightarrow> None
      | c # cs \<Rightarrow>
          if c = CHR ''-'' then map_option (\<lambda>r. (- int (fst r), snd r)) (parse_unsigned cs)
          else if c = CHR ''+'' then map_option (\<lambda>r. (int (fst r), snd r)) (parse_unsigned cs)
          else map_option (\<lambda>r. (int (fst r), snd r)) (parse_unsigned s))"

definition dec_value :: "int \<times> nat \<Rightarrow> rat" where
  "dec_value d = of_int (fst d) / 10 ^ snd d"

definition dec_less :: "int \<times> nat \<Rightarrow> int \<times> nat \<Rightarrow> bool" where
  "dec_less a b = (fst a * 10 ^ snd b < fst b * 10 ^ snd a)"

text \<open>The lexicographic order of strings, byte by byte.\<close>

fun str_less :: "string \<Rightarrow> string \<Rightarrow> bool" where
  "str_less [] [] = False"
| "str_less [] (y # ys) = True"
| "str_less (x # xs) [] = False"
| "str_less (x # xs) (y # ys) =
     ((of_char x :: nat) < of_char y \<or> (x = y \<and> str_less xs ys))"

text \<open>
  \<open>less_value\<close> is the order the four ordering comparisons use: numeric when both
  operands parse as signed decimals, lexicographic otherwise.
\<close>

definition less_value :: "string \<Rightarrow> string \<Rightarrow> bool" where
  "less_value a b =
     (case parse_decimal a of
        None \<Rightarrow> str_less a b
      | Some x \<Rightarrow>
          (case parse_decimal b of
             None \<Rightarrow> str_less a b
           | Some y \<Rightarrow> dec_less x y))"

fun compare_values :: "cmp_op \<Rightarrow> string \<Rightarrow> string \<Rightarrow> bool" where
  "compare_values Eq stored lit = (stored = lit)"
| "compare_values Ne stored lit = (stored \<noteq> lit)"
| "compare_values Lt stored lit = less_value stored lit"
| "compare_values Gt stored lit = less_value lit stored"
| "compare_values Le stored lit = (\<not> less_value lit stored)"
| "compare_values Ge stored lit = (\<not> less_value stored lit)"

subsection \<open>Query compiler and lister\<close>

text \<open>
  A tag name that is not in the store selects no file. A tag selects the files that bear a
  tag of its implication closure; a comparison is not expanded and selects the files
  that bear the tag with a value the comparison holds of. \<open>and\<close>, \<open>or\<close> and \<open>not\<close> are
  intersection, union and complement in the set of all files.
\<close>

definition tag_id_by_name :: "Database \<Rightarrow> string \<Rightarrow> TagId option" where
  "tag_id_by_name db name = map_option fst (find (\<lambda>t. snd t = name) (tag_tbl db))"

definition closure :: "Database \<Rightarrow> TagId list \<Rightarrow> TagId list" where
  "closure db tagIds =
     (case closure_from (\<lambda>c. None) db [] tagIds [] of
        Inl err \<Rightarrow> tagIds
      | Inr implications \<Rightarrow> remdups (tagIds @ map (\<lambda>i. Tag_Id (ImpliedTag i)) implications))"

fun matches :: "Database \<Rightarrow> expr \<Rightarrow> FileId \<Rightarrow> bool" where
  "matches db (AndE l r) f = (matches db l f \<and> matches db r f)"
| "matches db (OrE l r) f = (matches db l f \<or> matches db r f)"
| "matches db (NotE e) f = (\<not> matches db e f)"
| "matches db (TagE name) f =
     (case tag_id_by_name db name of
        None \<Rightarrow> False
      | Some t \<Rightarrow> list_ex (\<lambda>ft. fst ft = f \<and> fst (snd ft) \<in> set (closure db [t])) (file_tag db))"
| "matches db (Comparison name opr lit) f =
     (case tag_id_by_name db name of
        None \<Rightarrow> False
      | Some t \<Rightarrow>
          list_ex (\<lambda>ft. fst ft = f \<and> fst (snd ft) = t \<and>
                         list_ex (\<lambda>v. fst v = snd (snd ft) \<and> compare_values opr (snd v) lit)
                           (value_tbl db))
            (file_tag db))"

fun insert_by_path :: "File \<Rightarrow> File list \<Rightarrow> File list" where
  "insert_by_path f [] = [f]"
| "insert_by_path f (g # gs) =
     (if str_less (File_Path g) (File_Path f) then g # insert_by_path f gs else f # g # gs)"

definition query_files :: "Database \<Rightarrow> expr option \<Rightarrow> File list" where
  "query_files db q =
     foldr insert_by_path
       (filter (\<lambda>f. case q of None \<Rightarrow> True | Some e \<Rightarrow> matches db e (File_Id f)) (file_tbl db)) []"

text \<open>
  The files command with no option: what it writes to the standard output, one path a line.
\<close>

definition files_output :: "Database \<Rightarrow> string list \<Rightarrow> parse_error + string" where
  "files_output db args =
     (case parse (tokenize args) of
        Inl err \<Rightarrow> Inl err
      | Inr q \<Rightarrow> Inr (concat (map (\<lambda>f. File_Path f @ [CHR 0x0A]) (query_files db q))))"

section \<open>Data for the examples\<close>

text \<open>Three tags in a chain of implications: \<open>a\<close> implies \<open>b\<close>, \<open>b\<close> implies \<open>c\<close>.\<close>

definition chain_db :: Database where
  "chain_db = \<lparr>file_tbl = [], tag_tbl = [(1, ''a''), (2, ''b''), (3, ''c'')], value_tbl = [],
                file_tag = [], implication = [(1, 2), (2, 3)]\<rparr>"

text \<open>A row of \<open>implication\<close> whose consequent has no row in \<open>tag\<close>.\<close>

definition dangling_db :: Database where
  "dangling_db = \<lparr>file_tbl = [], tag_tbl = [(1, ''a'')], value_tbl = [],
                   file_tag = [], implication = [(1, 2)]\<rparr>"

definition empty_db :: Database where
  "empty_db = \<lparr>file_tbl = [], tag_tbl = [], value_tbl = [], file_tag = [], implication = []\<rparr>"

text \<open>
  The rows of \<open>implication\<close> that the join with \<open>tag\<close> keeps: both tags have a row.
\<close>

definition joined :: "Database \<Rightarrow> (TagId \<times> TagId) set" where
  "joined db =
     {i \<in> set (implication db). fst i \<in> fst ` set (tag_tbl db) \<and> snd i \<in> fst ` set (tag_tbl db)}"

text \<open>
  An environment for the examples: three paths the operating system refuses (one that
  does not exist, one without permission, one with an I/O error), every other path a
  regular file; no fault in the engine.
\<close>

definition regular_file :: fsnode where
  "regular_file = FsNode (Inr \<lparr>ModTime = 0, Size = 123, IsDir = False\<rparr>)
                         (Inr \<lparr>ModTime = 0, Size = 123, IsDir = False\<rparr>) None None []"

definition failing_node :: "errno \<Rightarrow> fsnode" where
  "failing_node e = FsNode (Inl e) (Inl e) (Some e) (Some e) []"

definition demo_env :: Env where
  "demo_env =
     \<lparr>fs = (\<lambda>path. if path = ''/missing'' then failing_node ENOENT
                    else if path = ''/secret'' then failing_node EACCES
                    else if path = ''/faulty'' then failing_node (OtherErrno 5)
                    else regular_file),
      filepath_Abs = Some,
      filepath_Join = (\<lambda>dir name. dir @ ''/'' @ name),
      fingerprint_Create = (\<lambda>path algorithm. Inr ''abc''),
      SettingAsString = (\<lambda>name. Inr ''dynamic:SHA256''),
      SettingAsBool = (\<lambda>name. Inr True),
      store_fault = (\<lambda>call. None),
      flag_for_implied = True\<rparr>"

definition demo_state :: State where
  "demo_state = \<lparr>store = chain_db, stderr = []\<rparr>"


text \<open>The pairs of tag ids that a list of implications joins.\<close>

definition edge_ids :: "Implication list \<Rightarrow> (TagId \<times> TagId) set" where
  "edge_ids rows = (\<lambda>i. (Tag_Id (ImplyingTag i), Tag_Id (ImpliedTag i))) ` set rows"

text \<open>
  A file that bears the tag \<open>c\<close> of the chain, and three pairs to apply to it.
\<close>

definition tagged_file :: File where
  "tagged_file = \<lparr>File_Id = 7, File_Path = ''/ok'', File_Fingerprint = ''abc'', File_ModTime = 0,
                   File_Size = 123, File_IsDir = False\<rparr>"

definition tagged_db :: Database where
  "tagged_db = chain_db\<lparr>file_tbl := [tagged_file], file_tag := [(7, 3, 0)]\<rparr>"

definition three_pairs :: "TagValuePair list" where
  "three_pairs = [\<lparr>TagId = 1, ValueId = 0\<rparr>, \<lparr>TagId = 2, ValueId = 0\<rparr>, \<lparr>TagId = 3, ValueId = 0\<rparr>]"


text \<open>
  The symbol and the word alias of each comparison operator, and the words a comparison
  is written with, a tag name or a literal: not empty, no white space, no operator symbol
  or parenthesis, no quote or backslash, and not a keyword.
\<close>

definition op_symbol :: "cmp_op \<Rightarrow> string" where
  "op_symbol opr = (case opr of Eq \<Rightarrow> ''='' | Ne \<Rightarrow> ''!='' | Lt \<Rightarrow> ''<'' | Gt \<Rightarrow> ''>''
                     | Le \<Rightarrow> ''<='' | Ge \<Rightarrow> ''>='')"

definition op_alias :: "cmp_op \<Rightarrow> string" where
  "op_alias opr = (case opr of Eq \<Rightarrow> ''eq'' | Ne \<Rightarrow> ''ne'' | Lt \<Rightarrow> ''lt'' | Gt \<Rightarrow> ''gt''
                     | Le \<Rightarrow> ''le'' | Ge \<Rightarrow> ''ge'')"

definition plain_char :: "char \<Rightarrow> bool" where
  "plain_char c = (\<not> isSpace c \<and> c \<notin> set ''=<>()'' \<and> c \<notin> set [CHR 0x22, CHR 0x27, CHR 0x5C])"

definition is_word :: "string \<Rightarrow> bool" where
  "is_word w = (w \<noteq> [] \<and> list_all plain_char w \<and> word_token w = TSym w)"

text \<open>
  The database the comparison tests of the files command set up: \<open>/tmp/a\<close> with
  \<open>size=99\<close> and \<open>/tmp/b\<close> with \<open>size=100\<close>.
\<close>

definition tests_db :: Database where
  "tests_db =
     \<lparr>file_tbl = [\<lparr>File_Id = 1, File_Path = ''/tmp/a'', File_Fingerprint = ''abc'', File_ModTime = 0,
                     File_Size = 123, File_IsDir = False\<rparr>,
                   \<lparr>File_Id = 2, File_Path = ''/tmp/b'', File_Fingerprint = ''abc'', File_ModTime = 0,
                     File_Size = 123, File_IsDir = False\<rparr>],
      tag_tbl = [(1, ''size'')],
      value_tbl = [(1, ''99''), (2, ''100'')],
      file_tag = [(1, 1, 1), (2, 1, 2)],
      implication = []\<rparr>"

text \<open>
  What a comparison operator says of two numbers, and of two strings in the lexicographic
  order.
\<close>

definition holds_num :: "cmp_op \<Rightarrow> rat \<Rightarrow> rat \<Rightarrow> bool" where
  "holds_num opr a b =
     (case opr of Eq \<Rightarrow> a = b | Ne \<Rightarrow> a \<noteq> b | Lt \<Rightarrow> a < b | Gt \<Rightarrow> b < a
      | Le \<Rightarrow> a \<le> b | Ge \<Rightarrow> b \<le> a)"

definition holds_lex :: "cmp_op \<Rightarrow> string \<Rightarrow> string \<Rightarrow> bool" where
  "holds_lex opr a b =
     (case opr of Eq \<Rightarrow> a = b | Ne \<Rightarrow> a \<noteq> b | Lt \<Rightarrow> str_less a b | Gt \<Rightarrow> str_less b a
      | Le \<Rightarrow> str_less a b \<or> a = b | Ge \<Rightarrow> str_less b a \<or> a = b)"


section \<open>Properties of the database layer\<close>

lemma strings_Repeat_neg: "strings_Repeat s (- 1) = Panic ''strings: negative Repeat count''"
  by (simp add: strings_Repeat_def)

text \<open>
  C9. \<open>ValuesByIds\<close> and \<open>ImplicationsForTags\<close> need a list that is not empty: on the
  empty list, and only there, each panics in \<open>strings.Repeat\<close> with a negative count
  while it builds its SQL, instead of returning the empty result. \<open>ValuesByNames\<close> returns
  the empty set for the empty list and never panics.
\<close>

theorem empty_list_panics:
  "ValuesByIds fault db [] = Panic ''strings: negative Repeat count''
   \<and> ImplicationsForTags fault db [] = Panic ''strings: negative Repeat count''
   \<and> ValuesByNames fault db [] = Return (Inr [])
   \<and> ((\<exists>msg. ValuesByIds fault db ids = Panic msg) = (ids = []))
   \<and> ((\<exists>msg. ImplicationsForTags fault db tagIds = Panic msg) = (tagIds = []))
   \<and> (\<nexists>msg. ValuesByNames fault db names = Panic msg)"
proof -
  have a: "ValuesByIds fault db [] = Panic ''strings: negative Repeat count''"
    by (simp add: ValuesByIds_def strings_Repeat_neg)
  have b: "ImplicationsForTags fault db [] = Panic ''strings: negative Repeat count''"
    by (simp add: ImplicationsForTags_def strings_Repeat_neg)
  have c: "ValuesByNames fault db [] = Return (Inr [])"
    by (simp add: ValuesByNames_def)
  have d: "(\<exists>msg. ValuesByIds fault db ids = Panic msg) = (ids = [])"
  proof (cases ids)
    case Nil
    then show ?thesis using a by simp
  next
    case (Cons x xs)
    then show ?thesis by (simp add: ValuesByIds_def strings_Repeat_def)
  qed
  have e: "(\<exists>msg. ImplicationsForTags fault db tagIds = Panic msg) = (tagIds = [])"
  proof (cases tagIds)
    case Nil
    then show ?thesis using b by simp
  next
    case (Cons x xs)
    then show ?thesis by (simp add: ImplicationsForTags_def strings_Repeat_def)
  qed
  have f: "\<nexists>msg. ValuesByNames fault db names = Panic msg"
    by (cases names) (simp_all add: ValuesByNames_def strings_Repeat_def)
  from a b c d e f show ?thesis by blast
qed

text \<open>
  C10. \<open>DeleteUnusedValues\<close> returns \<open>nil\<close> for every list of value ids, also when the
  engine fails the \<open>DELETE\<close>: the error is dropped, and the table is as it was.
\<close>

theorem DeleteUnusedValues_returns_nil:
  "DeleteUnusedValues (Some err) db valueIds = Return (None, db)
   \<and> (\<exists>db'. DeleteUnusedValues fault db valueIds = Return (None, db'))"
proof -
  have a: "DeleteUnusedValues (Some err) db valueIds = Return (None, db)"
    by (cases valueIds) (simp_all add: DeleteUnusedValues_def strings_Repeat_def db_Exec_def)
  have b: "\<exists>db'. DeleteUnusedValues fault db valueIds = Return (None, db')"
    by (cases valueIds; cases fault)
       (simp_all add: DeleteUnusedValues_def strings_Repeat_def db_Exec_def delete_unused_values_def)
  from a b show ?thesis by blast
qed

text \<open>
  C4, as stated for every list of tag ids and every row, fails in two places. A row whose
  consequent has no row in table \<open>tag\<close> is not returned, though its antecedent is in the
  list: the query joins \<open>tag\<close>. And at the empty list \<open>ImplicationsForTags\<close> returns
  nothing: it panics.
\<close>

theorem ImplicationsForTags_counterexample:
  "(1, 2) \<in> set (implication dangling_db)
   \<and> ImplicationsForTags None dangling_db [1] = Return (Inr [])
   \<and> ImplicationsForTags None chain_db [] = Panic ''strings: negative Repeat count''"
  by (simp add: ImplicationsForTags_def strings_Repeat_def db_ExecQuery_def
        select_implications_for_tags_def dangling_db_def)

lemma select_implications_ids:
  "(\<lambda>i. (Tag_Id (ImplyingTag i), Tag_Id (ImpliedTag i))) ` set (select_implications_for_tags params db)
     = {i \<in> joined db. fst i \<in> set params}"
  unfolding select_implications_for_tags_def joined_def
  by (auto simp: image_iff split: if_splits) force+

text \<open>
  C4, amended. For every list of tag ids that is not empty, when the engine carries the
  query out, \<open>ImplicationsForTags\<close> returns exactly the direct implications whose
  antecedent is in the list and whose two tags have rows in table \<open>tag\<close> (the query
  joins it for the names): one hop, no transitive expansion.
\<close>

theorem ImplicationsForTags_one_hop:
  assumes "tagIds \<noteq> []"
  shows "\<exists>rows. ImplicationsForTags None db tagIds = Return (Inr rows)
           \<and> (\<lambda>i. (Tag_Id (ImplyingTag i), Tag_Id (ImpliedTag i))) ` set rows
               = {i \<in> joined db. fst i \<in> set tagIds}"
proof -
  from assms have "0 \<le> int (length tagIds) - 1" by (cases tagIds) auto
  then have "ImplicationsForTags None db tagIds = Return (Inr (select_implications_for_tags tagIds db))"
    by (simp add: ImplicationsForTags_def strings_Repeat_def db_ExecQuery_def)
  then show ?thesis using select_implications_ids by blast
qed

text \<open>
  In the chain \<open>a\<close>, \<open>b\<close>, \<open>c\<close> the implications for \<open>a\<close> are the one row from \<open>a\<close> to \<open>b\<close>;
  the row from \<open>b\<close> to \<open>c\<close> is not among them.
\<close>

theorem ImplicationsForTags_one_hop_witness:
  "[1::nat] \<noteq> [] \<and> (\<exists>rows. ImplicationsForTags None chain_db [1] = Return (Inr rows)
           \<and> (\<lambda>i. (Tag_Id (ImplyingTag i), Tag_Id (ImpliedTag i))) ` set rows
               = {i \<in> joined chain_db. fst i \<in> set [1]})"
  using ImplicationsForTags_one_hop [of "[1]" chain_db] by simp

lemma chain_one_hop: "{i \<in> joined chain_db. fst i \<in> set [1]} = {(1, 2)}"
  by (auto simp: joined_def chain_db_def)

text \<open>
  C2, at the input where the code leaves the invariant: \<open>AddImplication\<close> inserts what it
  is given, also a tag with itself, so the relation that was irreflexive is not any more.
\<close>

theorem AddImplication_reflexive_row:
  "irreflexive empty_db
   \<and> AddImplication None empty_db 1 1 = (None, empty_db\<lparr>implication := [(1, 1)]\<rparr>)
   \<and> \<not> irreflexive (snd (AddImplication None empty_db 1 1))"
  by (simp add: irreflexive_def empty_db_def AddImplication_def db_Exec_def
        insert_or_ignore_implication_def)

text \<open>
  The rest of C2 holds of the code: inserting a pair that is there changes nothing and
  does not fail, an insertion of two different tags keeps the relation irreflexive, and so
  does \<open>UpdateImplicationsForTagId\<close>, whose \<open>DELETE\<close> is there to prevent a tag implying
  itself.
\<close>

lemma AddImplication_present:
  "(a, b) \<in> set (implication db) \<Longrightarrow> AddImplication None db a b = (None, db)"
  by (simp add: AddImplication_def db_Exec_def insert_or_ignore_implication_def)

lemma AddImplication_irreflexive:
  "irreflexive db \<Longrightarrow> a \<noteq> b \<Longrightarrow> irreflexive (snd (AddImplication fault db a b))"
  by (cases fault)
     (auto simp: AddImplication_def db_Exec_def insert_or_ignore_implication_def irreflexive_def)

lemma delete_between_irreflexive:
  "irreflexive db \<Longrightarrow> delete_implication_between a b db = Inr db' \<Longrightarrow> irreflexive db'"
  by (auto simp: delete_implication_between_def irreflexive_def list_all_iff)

lemma delete_between_removes:
  "delete_implication_between a b db = Inr db' \<Longrightarrow>
     (a, b) \<notin> set (implication db') \<and> (b, a) \<notin> set (implication db')"
  by (auto simp: delete_implication_between_def)

lemma update_tag_id_irreflexive:
  "irreflexive db \<Longrightarrow> (a, b) \<notin> set (implication db) \<Longrightarrow>
     update_implication_tag_id a b db = Inr db' \<Longrightarrow> irreflexive db'"
  by (fastforce simp: update_implication_tag_id_def irreflexive_def list_all_iff Let_def split: if_splits)

lemma update_tag_id_keeps:
  "(b, a) \<notin> set (implication db) \<Longrightarrow> irreflexive db \<Longrightarrow> 
     update_implication_tag_id a b db = Inr db' \<Longrightarrow> (b, a) \<notin> set (implication db')"
  by (auto simp: update_implication_tag_id_def irreflexive_def list_all_iff Let_def split: if_splits)

lemma update_implied_irreflexive:
  "irreflexive db \<Longrightarrow> (b, a) \<notin> set (implication db) \<Longrightarrow>
     update_implication_implied_tag_id a b db = Inr db' \<Longrightarrow> irreflexive db'"
  by (fastforce simp: update_implication_implied_tag_id_def irreflexive_def list_all_iff Let_def split: if_splits)

lemma UpdateImplicationsForTagId_irreflexive:
  assumes "irreflexive db"
  shows "irreflexive (snd (UpdateImplicationsForTagId f1 f2 f3 db a b))"
proof (cases "db_Exec f1 (delete_implication_between a b) db")
  case (Inl e)
  then show ?thesis using assms by (simp add: UpdateImplicationsForTagId_def)
next
  case (Inr db1)
  then have d1: "delete_implication_between a b db = Inr db1"
    by (cases f1) (simp_all add: db_Exec_def)
  have i1: "irreflexive db1" using assms d1 by (rule delete_between_irreflexive)
  have n1: "(a, b) \<notin> set (implication db1)" "(b, a) \<notin> set (implication db1)"
    using delete_between_removes[OF d1] by simp_all
  show ?thesis
  proof (cases "db_Exec f2 (update_implication_tag_id a b) db1")
    case (Inl e)
    then show ?thesis using Inr i1 by (simp add: UpdateImplicationsForTagId_def)
  next
    case (Inr db2)
    then have d2: "update_implication_tag_id a b db1 = Inr db2"
      by (cases f2) (simp_all add: db_Exec_def)
    have i2: "irreflexive db2" using i1 n1(1) d2 by (rule update_tag_id_irreflexive)
    have n2: "(b, a) \<notin> set (implication db2)" using n1(2) i1 d2 by (rule update_tag_id_keeps)
    show ?thesis
    proof (cases "db_Exec f3 (update_implication_implied_tag_id a b) db2")
      case (Inl e)
      then show ?thesis using \<open>db_Exec f1 _ db = Inr db1\<close> Inr i2
        by (simp add: UpdateImplicationsForTagId_def)
    next
      case (Inr db3)
      then have d3: "update_implication_implied_tag_id a b db2 = Inr db3"
        by (cases f3) (simp_all add: db_Exec_def)
      have "irreflexive db3" using i2 n2 d3 by (rule update_implied_irreflexive)
      then show ?thesis
        using \<open>db_Exec f1 _ db = Inr db1\<close> \<open>db_Exec f2 _ db1 = Inr db2\<close> Inr
        by (simp add: UpdateImplicationsForTagId_def)
    qed
  qed
qed

lemma DeleteImplication_irreflexive:
  "irreflexive db \<Longrightarrow> DeleteImplication f1 f2 db a b = Return r \<Longrightarrow> irreflexive (snd r)"
  by (auto simp: DeleteImplication_def irreflexive_def list_all_iff Let_def
           split: option.splits if_splits)

lemma DeleteImplicationsForTagId_irreflexive:
  "irreflexive db \<Longrightarrow> irreflexive (snd (DeleteImplicationsForTagId f db a))"
  by (auto simp: DeleteImplicationsForTagId_def irreflexive_def list_all_iff split: option.splits)

text \<open>
  So the relation stays irreflexive over every sequence of these operations in which no
  \<open>AddImplication\<close> is given a tag twice.
\<close>

lemma run_op_irreflexive:
  "irreflexive db \<Longrightarrow> adds_distinct opn \<Longrightarrow> run_op opn db = Some db' \<Longrightarrow> irreflexive db'"
proof (cases opn)
  case (OpAdd f a b)
  then show "irreflexive db \<Longrightarrow> adds_distinct opn \<Longrightarrow> run_op opn db = Some db' \<Longrightarrow> irreflexive db'"
    using AddImplication_irreflexive by auto
next
  case (OpUpdate f1 f2 f3 a b)
  then show "irreflexive db \<Longrightarrow> adds_distinct opn \<Longrightarrow> run_op opn db = Some db' \<Longrightarrow> irreflexive db'"
    using UpdateImplicationsForTagId_irreflexive by auto
next
  case (OpDelete f1 f2 a b)
  then show "irreflexive db \<Longrightarrow> adds_distinct opn \<Longrightarrow> run_op opn db = Some db' \<Longrightarrow> irreflexive db'"
    using DeleteImplication_irreflexive by (auto split: go.splits)
next
  case (OpDeleteForTag f a)
  then show "irreflexive db \<Longrightarrow> adds_distinct opn \<Longrightarrow> run_op opn db = Some db' \<Longrightarrow> irreflexive db'"
    using DeleteImplicationsForTagId_irreflexive by auto
qed

lemma run_ops_irreflexive:
  "irreflexive db \<Longrightarrow> list_all adds_distinct ops \<Longrightarrow> run_ops ops db = Some db' \<Longrightarrow> irreflexive db'"
proof (induction ops arbitrary: db)
  case Nil
  then show ?case by simp
next
  case (Cons opn ops)
  then show ?case
    by (auto split: option.splits dest: run_op_irreflexive)
qed

lemma run_ops_reflexive_example:
  "run_ops [OpAdd None 1 2, OpAdd None 2 2] empty_db
     = Some (empty_db\<lparr>implication := [(1, 2), (2, 2)]\<rparr>)"
  by (simp add: AddImplication_def db_Exec_def insert_or_ignore_implication_def empty_db_def)

section \<open>Properties of the tag command\<close>

subsection \<open>The closure of the implications\<close>

lemma edge_ids_select: "edge_ids (select_implications_for_tags params db) = {i \<in> joined db. fst i \<in> set params}"
  unfolding edge_ids_def by (rule select_implications_ids)

lemma edge_ids_append: "edge_ids (xs @ ys) = edge_ids xs \<union> edge_ids ys"
  by (auto simp: edge_ids_def)

lemma closure_from_unfold:
  "closure_from fault db visited worklist found =
     (if remdups (filter (\<lambda>t. t \<notin> set visited) worklist) = [] then Inr found
      else case fault (Call_ImplicationsForTags (remdups (filter (\<lambda>t. t \<notin> set visited) worklist))) of
             Some err \<Rightarrow> Inl err
           | None \<Rightarrow>
               closure_from fault db (visited @ remdups (filter (\<lambda>t. t \<notin> set visited) worklist))
                 (map (\<lambda>i. Tag_Id (ImpliedTag i))
                    (select_implications_for_tags (remdups (filter (\<lambda>t. t \<notin> set visited) worklist)) db))
                 (found @ select_implications_for_tags (remdups (filter (\<lambda>t. t \<notin> set visited) worklist)) db))"
  by (subst closure_from.simps) (simp add: Let_def split: option.split)

text \<open>
  The worklist reaches every implication whose antecedent is reachable from the tags it
  starts with. The invariant: every implication of a visited tag has been found, and its
  consequent is visited or on the worklist.
\<close>

lemma closure_from_complete:
  assumes "closure_from fault db visited worklist found = Inr res"
    and "\<forall>v \<in> set visited. \<forall>y. (v, y) \<in> joined db \<longrightarrow> (v, y) \<in> edge_ids found \<and> y \<in> set visited \<union> set worklist"
  shows "edge_ids found \<subseteq> edge_ids res \<and>
         (\<forall>a \<in> set visited \<union> set worklist. \<forall>x y. (a, x) \<in> (joined db)\<^sup>* \<longrightarrow> (x, y) \<in> joined db \<longrightarrow> (x, y) \<in> edge_ids res)"
  using assms
proof (induction fault db visited worklist found rule: closure_from.induct)
  case (1 fault db visited worklist found)
  let ?work = "remdups (filter (\<lambda>t. t \<notin> set visited) worklist)"
  show ?case
  proof (cases "?work = []")
    case True
    then have sub: "set worklist \<subseteq> set visited" by (auto simp: filter_empty_conv)
    from True "1.prems"(1) have res: "res = found" by (subst (asm) closure_from_unfold) simp
    have closed: "\<And>a x. a \<in> set visited \<Longrightarrow> (a, x) \<in> (joined db)\<^sup>* \<Longrightarrow> x \<in> set visited"
    proof -
      fix a x assume "a \<in> set visited" "(a, x) \<in> (joined db)\<^sup>*"
      from this(2) this(1) show "x \<in> set visited"
        by (induction rule: rtrancl_induct) (use "1.prems"(2) sub in blast)+
    qed
    show ?thesis
      using res closed sub "1.prems"(2) by blast
  next
    case False
    show ?thesis
    proof (cases "fault (Call_ImplicationsForTags ?work)")
      case (Some e)
      with False "1.prems"(1) show ?thesis by (subst (asm) closure_from_unfold) simp
    next
      case None
      let ?rows = "select_implications_for_tags ?work db"
      let ?wl = "map (\<lambda>i. Tag_Id (ImpliedTag i)) ?rows"
      from False None "1.prems"(1)
      have step: "closure_from fault db (visited @ ?work) ?wl (found @ ?rows) = Inr res"
        by (subst (asm) closure_from_unfold) simp
      have work_set: "set ?work = set worklist - set visited" by auto
      have rows_edges: "edge_ids ?rows = {i \<in> joined db. fst i \<in> set ?work}"
        by (rule edge_ids_select)
      have wl_set: "set ?wl = snd ` edge_ids ?rows"
        by (force simp: edge_ids_def)
      have inv': "\<forall>v \<in> set (visited @ ?work). \<forall>y. (v, y) \<in> joined db \<longrightarrow>
                    (v, y) \<in> edge_ids (found @ ?rows) \<and> y \<in> set (visited @ ?work) \<union> set ?wl"
      proof (intro ballI allI impI)
        fix v y assume v: "v \<in> set (visited @ ?work)" and e: "(v, y) \<in> joined db"
        show "(v, y) \<in> edge_ids (found @ ?rows) \<and> y \<in> set (visited @ ?work) \<union> set ?wl"
        proof (cases "v \<in> set visited")
          case True
          with "1.prems"(2) e have "(v, y) \<in> edge_ids found" "y \<in> set visited \<union> set worklist" by blast+
          then show ?thesis using work_set by (auto simp: edge_ids_append)
        next
          case False
          with v have "v \<in> set ?work" by auto
          with e have "(v, y) \<in> edge_ids ?rows" using rows_edges by auto
          then show ?thesis using wl_set by (force simp: edge_ids_append)
        qed
      qed
      from "1.IH"[OF refl False None refl step inv']
      have ih: "edge_ids (found @ ?rows) \<subseteq> edge_ids res"
        "\<forall>a \<in> set (visited @ ?work) \<union> set ?wl. \<forall>x y. (a, x) \<in> (joined db)\<^sup>* \<longrightarrow> (x, y) \<in> joined db \<longrightarrow> (x, y) \<in> edge_ids res"
        by blast+
      have cover: "set visited \<union> set worklist \<subseteq> set (visited @ ?work) \<union> set ?wl"
        using work_set by auto
      show ?thesis using ih cover by (auto simp: edge_ids_append)
    qed
  qed
qed


lemma Implies_edge_ids: "Implies rows t = (\<exists>x. (x, t) \<in> edge_ids rows)"
  by (force simp: Implies_def edge_ids_def list_ex_iff)

lemma store_ImplicationsForTags_complete:
  assumes "store_ImplicationsForTags env db tagIds = Inr implied"
    and "a \<in> set tagIds" and "(a, t) \<in> (joined db)\<^sup>+"
  shows "Implies implied t"
proof -
  from assms(1) have c: "closure_from (store_fault env) db [] tagIds [] = Inr implied"
    by (simp add: store_ImplicationsForTags_def)
  from assms(3) obtain x where x: "(a, x) \<in> (joined db)\<^sup>*" "(x, t) \<in> joined db"
    by (meson tranclD2)
  have "\<forall>a \<in> set [] \<union> set tagIds. \<forall>x y. (a, x) \<in> (joined db)\<^sup>* \<longrightarrow> (x, y) \<in> joined db \<longrightarrow> (x, y) \<in> edge_ids implied"
    using closure_from_complete[OF c] by simp
  with assms(2) x have "(x, t) \<in> edge_ids implied" by auto
  then show ?thesis by (auto simp: Implies_edge_ids)
qed

lemma revisedTagValuePairs_filter:
  "revisedTagValuePairs existing implied pairs =
     filter (\<lambda>p. \<not> Contains existing (TagId p) (ValueId p)
                 \<and> \<not> (ValueId p = 0 \<and> Implies implied (TagId p))) pairs"
  by (induction pairs) auto

lemma FileTagsByFileId_shape:
  assumes "store_FileTagsByFileId env db fileId flag = Inr existing"
  shows "\<exists>extra. existing =
           map (\<lambda>ft. \<lparr>FileTag_FileId = fst ft, FileTag_TagId = fst (snd ft),
                        FileTag_ValueId = snd (snd ft)\<rparr>)
             (filter (\<lambda>ft. fst ft = fileId) (file_tag db)) @ extra
         \<and> list_all (\<lambda>x. FileTag_ValueId x = 0) extra"
proof (cases "store_fault env (Call_FileTagsByFileId fileId)")
  case (Some e)
  with assms show ?thesis by (simp add: store_FileTagsByFileId_def)
next
  case None
  show ?thesis
  proof (cases "flag = flag_for_implied env")
    case False
    with None assms show ?thesis by (simp add: store_FileTagsByFileId_def Let_def)
  next
    case True
    with None assms show ?thesis
      by (auto simp: store_FileTagsByFileId_def Let_def list_all_iff split: sum.splits)
  qed
qed

lemma FileTagsByFileId_has_rows:
  assumes "store_FileTagsByFileId env db fileId flag = Inr existing"
    and "(fileId, t, v) \<in> set (file_tag db)"
  shows "Contains existing t v"
proof -
  from FileTagsByFileId_shape[OF assms(1)] obtain extra where
    "existing = map (\<lambda>ft. \<lparr>FileTag_FileId = fst ft, FileTag_TagId = fst (snd ft),
                        FileTag_ValueId = snd (snd ft)\<rparr>)
             (filter (\<lambda>ft. fst ft = fileId) (file_tag db)) @ extra" by blast
  with assms(2) show ?thesis
    by (force simp: Contains_def list_ex_iff)
qed

lemma FileTagsByFileId_valued_rows:
  assumes "store_FileTagsByFileId env db fileId flag = Inr existing"
    and "Contains existing t v" and "v \<noteq> 0"
  shows "(fileId, t, v) \<in> set (file_tag db)"
proof -
  from FileTagsByFileId_shape[OF assms(1)] obtain extra where
    "existing = map (\<lambda>ft. \<lparr>FileTag_FileId = fst ft, FileTag_TagId = fst (snd ft),
                        FileTag_ValueId = snd (snd ft)\<rparr>)
             (filter (\<lambda>ft. fst ft = fileId) (file_tag db)) @ extra"
    "list_all (\<lambda>x. FileTag_ValueId x = 0) extra" by blast
  with assms(2,3) show ?thesis
    by (auto simp: Contains_def list_ex_iff list_all_iff)
qed

lemma revise_without_explicit:
  assumes r: "tagPath_revise env db path pairs f False = Inr applied"
  shows "set applied \<subseteq> set pairs
        \<and> (\<forall>p \<in> set applied. (File_Id f, TagId p, ValueId p) \<notin> set (file_tag db))
        \<and> (\<forall>p \<in> set applied. ValueId p = 0 \<longrightarrow>
              \<not> (\<exists>q \<in> set pairs. (TagId q, TagId p) \<in> (joined db)\<^sup>+))
        \<and> (\<forall>p \<in> set pairs. ValueId p \<noteq> 0 \<and> (File_Id f, TagId p, ValueId p) \<notin> set (file_tag db)
              \<longrightarrow> p \<in> set applied)"
proof -
  from r obtain existing implied where
    e: "store_FileTagsByFileId env db (File_Id f) False = Inr existing" and
    i: "store_ImplicationsForTags env db (map TagId pairs) = Inr implied" and
    a: "applied = revisedTagValuePairs existing implied pairs"
    by (auto simp: tagPath_revise_def removeAlreadyAppliedTagValuePairs_def split: sum.splits)
  have a': "applied = filter (\<lambda>p. \<not> Contains existing (TagId p) (ValueId p)
               \<and> \<not> (ValueId p = 0 \<and> Implies implied (TagId p))) pairs"
    using a by (simp add: revisedTagValuePairs_filter)
  have 1: "set applied \<subseteq> set pairs" using a' by auto
  have 2: "\<forall>p \<in> set applied. (File_Id f, TagId p, ValueId p) \<notin> set (file_tag db)"
    using a' FileTagsByFileId_has_rows[OF e] by auto
  have 3: "\<forall>p \<in> set applied. ValueId p = 0 \<longrightarrow>
            \<not> (\<exists>q \<in> set pairs. (TagId q, TagId p) \<in> (joined db)\<^sup>+)"
  proof (intro ballI impI notI)
    fix p assume p: "p \<in> set applied" "ValueId p = 0"
      and "\<exists>q \<in> set pairs. (TagId q, TagId p) \<in> (joined db)\<^sup>+"
    then obtain q where q: "q \<in> set pairs" "(TagId q, TagId p) \<in> (joined db)\<^sup>+" by blast
    from q(1) have "TagId q \<in> set (map TagId pairs)" by simp
    from store_ImplicationsForTags_complete[OF i this q(2)]
    have "Implies implied (TagId p)" .
    with p a' show False by auto
  qed
  have 4: "\<forall>p \<in> set pairs. ValueId p \<noteq> 0 \<and> (File_Id f, TagId p, ValueId p) \<notin> set (file_tag db)
            \<longrightarrow> p \<in> set applied"
    using a' FileTagsByFileId_valued_rows[OF e] by auto
  from 1 2 3 4 show ?thesis by blast
qed

text \<open>
  C1. With the explicit option \<open>tagPath\<close> applies the pair list as it is: no pair is
  dropped. Without it, the list it applies is a part of the given one that has no pair
  which is among the file's file-tag rows, and no pair of value id 0 whose tag is implied,
  over one or more implications (those that the one-hop query returns, \<open>joined\<close>), by a
  tag of the pairs being applied; and a pair with a value that is not among the file's
  rows is kept.
\<close>

theorem tagPath_revise_drops:
  "tagPath_revise env db path pairs f True = Inr pairs
   \<and> (tagPath_revise env db path pairs f False = Inr applied \<longrightarrow>
        set applied \<subseteq> set pairs
        \<and> (\<forall>p \<in> set applied. (File_Id f, TagId p, ValueId p) \<notin> set (file_tag db))
        \<and> (\<forall>p \<in> set applied. ValueId p = 0 \<longrightarrow>
              \<not> (\<exists>q \<in> set pairs. (TagId q, TagId p) \<in> (joined db)\<^sup>+))
        \<and> (\<forall>p \<in> set pairs. ValueId p \<noteq> 0 \<and> (File_Id f, TagId p, ValueId p) \<notin> set (file_tag db)
              \<longrightarrow> p \<in> set applied))"
proof -
  have "tagPath_revise env db path pairs f True = Inr pairs"
    by (simp add: tagPath_revise_def)
  then show ?thesis using revise_without_explicit by blast
qed

lemma demo_revise:
  "tagPath_revise demo_env tagged_db ''/ok'' three_pairs tagged_file False = Inr [\<lparr>TagId = 1, ValueId = 0\<rparr>]"
  by (simp add: tagPath_revise_def removeAlreadyAppliedTagValuePairs_def store_FileTagsByFileId_def
        store_ImplicationsForTags_def closure_from_unfold select_implications_for_tags_def
        demo_env_def tagged_db_def tagged_file_def three_pairs_def chain_db_def
        Contains_def Implies_def)

theorem tagPath_revise_drops_witness:
  "tagPath_revise demo_env tagged_db ''/ok'' three_pairs tagged_file True = Inr three_pairs
   \<and> tagPath_revise demo_env tagged_db ''/ok'' three_pairs tagged_file False
       = Inr [\<lparr>TagId = 1, ValueId = 0\<rparr>]
   \<and> (File_Id tagged_file, 1, 0) \<notin> set (file_tag tagged_db)
   \<and> \<not> (\<exists>q \<in> set three_pairs. (TagId q, 1) \<in> (joined tagged_db)\<^sup>+)"
  using tagPath_revise_drops [of demo_env tagged_db "''/ok''" three_pairs tagged_file
          "[\<lparr>TagId = 1, ValueId = 0\<rparr>]"] demo_revise
  by simp

subsection \<open>Copying the tags of a file\<close>

text \<open>
  The worklist finds only implications whose antecedent is reachable from the tags it
  starts with.
\<close>

lemma closure_from_sound:
  assumes "closure_from fault db visited worklist found = Inr res"
    and "edge_ids found \<subseteq> {i \<in> joined db. \<exists>a \<in> S. (a, fst i) \<in> (joined db)\<^sup>*}"
    and "\<forall>w \<in> set worklist. \<exists>a \<in> S. (a, w) \<in> (joined db)\<^sup>*"
  shows "edge_ids res \<subseteq> {i \<in> joined db. \<exists>a \<in> S. (a, fst i) \<in> (joined db)\<^sup>*}"
  using assms
proof (induction fault db visited worklist found rule: closure_from.induct)
  case (1 fault db visited worklist found)
  let ?work = "remdups (filter (\<lambda>t. t \<notin> set visited) worklist)"
  show ?case
  proof (cases "?work = []")
    case True
    with "1.prems"(1) have "res = found" by (subst (asm) closure_from_unfold) simp
    with "1.prems"(2) show ?thesis by simp
  next
    case False
    show ?thesis
    proof (cases "fault (Call_ImplicationsForTags ?work)")
      case (Some e)
      with False "1.prems"(1) show ?thesis by (subst (asm) closure_from_unfold) simp
    next
      case None
      let ?rows = "select_implications_for_tags ?work db"
      let ?wl = "map (\<lambda>i. Tag_Id (ImpliedTag i)) ?rows"
      from False None "1.prems"(1)
      have step: "closure_from fault db (visited @ ?work) ?wl (found @ ?rows) = Inr res"
        by (subst (asm) closure_from_unfold) simp
      have rows_edges: "edge_ids ?rows = {i \<in> joined db. fst i \<in> set ?work}"
        by (rule edge_ids_select)
      have work_reach: "\<forall>w \<in> set ?work. \<exists>a \<in> S. (a, w) \<in> (joined db)\<^sup>*"
        using "1.prems"(3) by auto
      have f': "edge_ids (found @ ?rows) \<subseteq> {i \<in> joined db. \<exists>a \<in> S. (a, fst i) \<in> (joined db)\<^sup>*}"
        using "1.prems"(2) rows_edges work_reach by (auto simp: edge_ids_append)
      have wl_set: "set ?wl = snd ` edge_ids ?rows"
        by (force simp: edge_ids_def)
      have w': "\<forall>w \<in> set ?wl. \<exists>a \<in> S. (a, w) \<in> (joined db)\<^sup>*"
      proof
        fix w assume "w \<in> set ?wl"
        then obtain x where x: "(x, w) \<in> edge_ids ?rows" using wl_set by auto
        with rows_edges have "(x, w) \<in> joined db" "x \<in> set ?work" by auto
        with work_reach obtain a where "a \<in> S" "(a, x) \<in> (joined db)\<^sup>*" by blast
        with \<open>(x, w) \<in> joined db\<close> show "\<exists>a \<in> S. (a, w) \<in> (joined db)\<^sup>*"
          by (meson rtrancl.rtrancl_into_rtrancl)
      qed
      from "1.IH"[OF refl False None refl step f' w'] show ?thesis .
    qed
  qed
qed

text \<open>
  A row that \<open>FileTagsByFileId\<close> returns is a row of the file, or it has no value and its
  tag is implied by a tag of the file.
\<close>

lemma FileTagsByFileId_implied_rows:
  assumes "store_FileTagsByFileId env db fileId flag = Inr fileTags"
    and "ft \<in> set fileTags"
  shows "(fileId, FileTag_TagId ft, FileTag_ValueId ft) \<in> set (file_tag db)
         \<or> (FileTag_ValueId ft = 0 \<and>
             (\<exists>v. \<exists>a. (fileId, a, v) \<in> set (file_tag db) \<and> (a, FileTag_TagId ft) \<in> (joined db)\<^sup>+))"
proof (cases "store_fault env (Call_FileTagsByFileId fileId)")
  case (Some e)
  with assms show ?thesis by (simp add: store_FileTagsByFileId_def)
next
  case None
  let ?rows = "map (\<lambda>ft. \<lparr>FileTag_FileId = fst ft, FileTag_TagId = fst (snd ft),
                              FileTag_ValueId = snd (snd ft)\<rparr>)
                 (filter (\<lambda>ft. fst ft = fileId) (file_tag db))"
  have rows: "\<And>r. r \<in> set ?rows \<Longrightarrow> (fileId, FileTag_TagId r, FileTag_ValueId r) \<in> set (file_tag db)"
    by auto
  show ?thesis
  proof (cases "flag = flag_for_implied env")
    case False
    with None assms(1) have "fileTags = ?rows" by (simp add: store_FileTagsByFileId_def Let_def)
    with assms(2) rows show ?thesis by blast
  next
    case True
    with None assms(1) obtain implications where
      c: "closure_from (store_fault env) db [] (map FileTag_TagId ?rows) [] = Inr implications" and
      f: "fileTags = ?rows @ map (\<lambda>t. \<lparr>FileTag_FileId = fileId, FileTag_TagId = t, FileTag_ValueId = 0\<rparr>)
                               (remdups (map (\<lambda>i. Tag_Id (ImpliedTag i)) implications))"
      by (auto simp: store_FileTagsByFileId_def Let_def split: sum.splits)
    show ?thesis
    proof (cases "ft \<in> set ?rows")
      case True
      with rows show ?thesis by blast
    next
      case False
      with f assms(2) obtain i where i: "i \<in> set implications"
        "ft = \<lparr>FileTag_FileId = fileId, FileTag_TagId = Tag_Id (ImpliedTag i), FileTag_ValueId = 0\<rparr>"
        by auto
      then have e: "(Tag_Id (ImplyingTag i), FileTag_TagId ft) \<in> edge_ids implications"
        by (force simp: edge_ids_def)
      have "edge_ids implications
              \<subseteq> {i \<in> joined db. \<exists>a \<in> {a. \<exists>v. (fileId, a, v) \<in> set (file_tag db)}.
                                     (a, fst i) \<in> (joined db)\<^sup>*}"
        by (rule closure_from_sound[OF c]) (auto simp: edge_ids_def)
      with e have "(Tag_Id (ImplyingTag i), FileTag_TagId ft)
              \<in> {i \<in> joined db. \<exists>a \<in> {a. \<exists>v. (fileId, a, v) \<in> set (file_tag db)}.
                                     (a, fst i) \<in> (joined db)\<^sup>*}"
        by (rule subsetD[rotated])
      then have "(Tag_Id (ImplyingTag i), FileTag_TagId ft) \<in> joined db"
        "\<exists>a v. (fileId, a, v) \<in> set (file_tag db) \<and> (a, Tag_Id (ImplyingTag i)) \<in> (joined db)\<^sup>*"
        by auto
      then obtain a v where a: "(fileId, a, v) \<in> set (file_tag db)"
        "(a, Tag_Id (ImplyingTag i)) \<in> (joined db)\<^sup>*"
        "(Tag_Id (ImplyingTag i), FileTag_TagId ft) \<in> joined db" by blast
      then have "(a, FileTag_TagId ft) \<in> (joined db)\<^sup>+" by auto
      moreover note a(1)
      ultimately show ?thesis using i(2) by auto
    qed
  qed
qed

text \<open>
  \<open>tagFrom\<close> makes its pairs from \<open>FileTagsByFileId\<close> of the source file with the flag
  \<open>true\<close>. Without the explicit option, whichever value of the flag asks for the implied
  rows, every pair that \<open>tagPath\<close> then applies to a target is a row of the source file:
  an implied row has no value and is implied by a pair being applied, so the revision
  drops it. (The tags and implications are those the pairs were read with.)
\<close>

lemma tagFrom_without_explicit:
  assumes src: "store_FileTagsByFileId env db srcId True = Inr fileTags"
    and rev: "tagPath_revise env db' path
                (map (\<lambda>fileTag. \<lparr>TagId = FileTag_TagId fileTag, ValueId = FileTag_ValueId fileTag\<rparr>) fileTags)
                f False = Inr applied"
    and same: "joined db' = joined db"
    and p: "p \<in> set applied"
  shows "(srcId, TagId p, ValueId p) \<in> set (file_tag db)"
proof -
  let ?pairs = "map (\<lambda>fileTag. \<lparr>TagId = FileTag_TagId fileTag, ValueId = FileTag_ValueId fileTag\<rparr>) fileTags"
  from revise_without_explicit[OF rev]
  have sub: "set applied \<subseteq> set ?pairs"
    and noimp: "\<forall>p \<in> set applied. ValueId p = 0 \<longrightarrow>
              \<not> (\<exists>q \<in> set ?pairs. (TagId q, TagId p) \<in> (joined db')\<^sup>+)"
    by blast+
  from sub p obtain ft where ft: "ft \<in> set fileTags" "TagId p = FileTag_TagId ft" "ValueId p = FileTag_ValueId ft"
    by auto
  from FileTagsByFileId_implied_rows[OF src ft(1)]
  show ?thesis
  proof
    assume "(srcId, FileTag_TagId ft, FileTag_ValueId ft) \<in> set (file_tag db)"
    with ft show ?thesis by simp
  next
    assume imp: "FileTag_ValueId ft = 0 \<and>
             (\<exists>v. \<exists>a. (srcId, a, v) \<in> set (file_tag db) \<and> (a, FileTag_TagId ft) \<in> (joined db)\<^sup>+)"
    then obtain v a where a: "(srcId, a, v) \<in> set (file_tag db)" "(a, TagId p) \<in> (joined db)\<^sup>+"
      using ft by auto
    from FileTagsByFileId_has_rows[OF src a(1)]
    obtain g where "g \<in> set fileTags" "FileTag_TagId g = a"
      by (auto simp: Contains_def list_ex_iff)
    then have "\<exists>q \<in> set ?pairs. (TagId q, TagId p) \<in> (joined db')\<^sup>+"
      using a(2) same by force
    moreover from imp ft have "ValueId p = 0" by simp
    ultimately show ?thesis using noimp p by blast
  qed
qed


text \<open>
  With the explicit option the pairs are applied as they are, and what \<open>tagFrom\<close> copies
  is what \<open>FileTagsByFileId\<close> returns for \<open>true\<close>: the rows of the source file if
  \<open>true\<close> is not the value that asks for the implied rows, and the implied rows as well
  if it is, as for a file that bears \<open>a\<close> in the chain.
\<close>

lemma FileTagsByFileId_other_flag:
  assumes "flag \<noteq> flag_for_implied env" and "store_fault env (Call_FileTagsByFileId fileId) = None"
  shows "store_FileTagsByFileId env db fileId flag
           = Inr (map (\<lambda>ft. \<lparr>FileTag_FileId = fst ft, FileTag_TagId = fst (snd ft),
                                FileTag_ValueId = snd (snd ft)\<rparr>)
                    (filter (\<lambda>ft. fst ft = fileId) (file_tag db)))"
  using assms by (simp add: store_FileTagsByFileId_def)

lemma FileTagsByFileId_implied_example:
  "store_FileTagsByFileId demo_env (chain_db\<lparr>file_tag := [(7, 1, 0)]\<rparr>) 7 True
     = Inr [\<lparr>FileTag_FileId = 7, FileTag_TagId = 1, FileTag_ValueId = 0\<rparr>,
            \<lparr>FileTag_FileId = 7, FileTag_TagId = 2, FileTag_ValueId = 0\<rparr>,
            \<lparr>FileTag_FileId = 7, FileTag_TagId = 3, FileTag_ValueId = 0\<rparr>]"
  by (simp add: store_FileTagsByFileId_def closure_from_unfold select_implications_for_tags_def
        demo_env_def chain_db_def)

subsection \<open>Iterating over the paths\<close>

lemma tagEachPath_keeps_wereErrors:
  "tagEachPath env pairs explicit recursive alg paths st True = (r, st', w') \<Longrightarrow> r = None \<Longrightarrow> w'"
proof (induction paths arbitrary: st)
  case Nil
  then show ?case by simp
next
  case (Cons p ps)
  then show ?case
    by (auto split: prod.splits option.splits if_splits)
qed

lemma tagAllPaths_after_warning:
  "fst (tagAllPaths env pairs explicit recursive alg paths st True) \<noteq> None"
proof -
  obtain r st' w' where e: "tagEachPath env pairs explicit recursive alg paths st True = (r, st', w')"
    by (cases "tagEachPath env pairs explicit recursive alg paths st True") auto
  show ?thesis
  proof (cases r)
    case None
    with e tagEachPath_keeps_wereErrors have w' by blast
    with e None show ?thesis by (simp add: tagAllPaths_def)
  next
    case (Some a)
    with e show ?thesis by (simp add: tagAllPaths_def)
  qed
qed

text \<open>
  C7. In the loop over the paths of \<open>tagPaths\<close> and \<open>tagFrom\<close>, when \<open>tagPath\<close> fails on
  a path: a permission-denied or no-such-file error becomes a warning, \<open>wereErrors\<close> is
  set and the loop goes on with the remaining paths; any other error ends the command
  with an error, the remaining paths untouched; in every one of these cases the command
  returns an error, that is a non-zero outcome (\<open>errBlank\<close> at the latest); and so it
  does whenever \<open>wereErrors\<close> is set when the loop begins, that is after a warning for
  an earlier path or for a tag argument.
\<close>

theorem tagAllPaths_error_policy:
  assumes "tagPath env path (fs env path) pairs explicit recursive alg st = (Some err, st')"
  shows "(os_IsPermission err \<longrightarrow>
            tagEachPath env pairs explicit recursive alg (path # rest) st w
              = tagEachPath env pairs explicit recursive alg rest
                  (log_Warnf (path @ '': permisison denied'') st') True)
       \<and> (\<not> os_IsPermission err \<and> os_IsNotExist err \<longrightarrow>
            tagEachPath env pairs explicit recursive alg (path # rest) st w
              = tagEachPath env pairs explicit recursive alg rest
                  (log_Warnf (path @ '': no such file'') st') True)
       \<and> (\<not> os_IsPermission err \<and> \<not> os_IsNotExist err \<longrightarrow>
            tagAllPaths env pairs explicit recursive alg (path # rest) st w
              = (Some (Errorf (path @ '': could not stat file'')), st'))
       \<and> fst (tagAllPaths env pairs explicit recursive alg (path # rest) st w) \<noteq> None
       \<and> fst (tagAllPaths env pairs explicit recursive alg paths st True) \<noteq> None"
proof -
  have a: "os_IsPermission err \<longrightarrow>
            tagEachPath env pairs explicit recursive alg (path # rest) st w
              = tagEachPath env pairs explicit recursive alg rest
                  (log_Warnf (path @ '': permisison denied'') st') True"
    using assms by simp
  have b: "\<not> os_IsPermission err \<and> os_IsNotExist err \<longrightarrow>
            tagEachPath env pairs explicit recursive alg (path # rest) st w
              = tagEachPath env pairs explicit recursive alg rest
                  (log_Warnf (path @ '': no such file'') st') True"
    using assms by simp
  have c: "\<not> os_IsPermission err \<and> \<not> os_IsNotExist err \<longrightarrow>
            tagAllPaths env pairs explicit recursive alg (path # rest) st w
              = (Some (Errorf (path @ '': could not stat file'')), st')"
    using assms by (simp add: tagAllPaths_def)
  have d: "fst (tagAllPaths env pairs explicit recursive alg (path # rest) st w) \<noteq> None"
  proof (cases "os_IsPermission err \<or> os_IsNotExist err")
    case True
    then obtain msg where
      "tagEachPath env pairs explicit recursive alg (path # rest) st w
         = tagEachPath env pairs explicit recursive alg rest (log_Warnf msg st') True"
      using a b by blast
    then have "tagAllPaths env pairs explicit recursive alg (path # rest) st w
         = tagAllPaths env pairs explicit recursive alg rest (log_Warnf msg st') True"
      by (simp add: tagAllPaths_def)
    then show ?thesis using tagAllPaths_after_warning by simp
  next
    case False
    then show ?thesis using c by simp
  qed
  have e: "fst (tagAllPaths env pairs explicit recursive alg paths st True) \<noteq> None"
    by (rule tagAllPaths_after_warning)
  from a b c d e show ?thesis by blast
qed


lemma demo_missing:
  "tagPath demo_env ''/missing'' (fs demo_env ''/missing'') [] False False ''dynamic:SHA256'' demo_state
     = (Some (PathError ENOENT), demo_state)"
  by (simp add: demo_env_def failing_node_def tagPath_here_def tagPath_stat_def)

lemma demo_secret:
  "tagPath demo_env ''/secret'' (fs demo_env ''/secret'') [] False False ''dynamic:SHA256'' demo_state
     = (Some (PathError EACCES), demo_state)"
  by (simp add: demo_env_def failing_node_def tagPath_here_def tagPath_stat_def)

lemma demo_faulty:
  "tagPath demo_env ''/faulty'' (fs demo_env ''/faulty'') [] False False ''dynamic:SHA256'' demo_state
     = (Some (PathError (OtherErrno 5)), demo_state)"
  by (simp add: demo_env_def failing_node_def tagPath_here_def tagPath_stat_def)

theorem tagAllPaths_error_policy_witness:
  "tagPath demo_env ''/missing'' (fs demo_env ''/missing'') [] False False ''dynamic:SHA256'' demo_state
     = (Some (PathError ENOENT), demo_state)
   \<and> tagEachPath demo_env [] False False ''dynamic:SHA256'' [''/missing'', ''/ok''] demo_state False
     = tagEachPath demo_env [] False False ''dynamic:SHA256'' [''/ok'']
         (log_Warnf ''/missing: no such file'' demo_state) True
   \<and> fst (tagAllPaths demo_env [] False False ''dynamic:SHA256'' [''/missing'', ''/ok''] demo_state False)
         \<noteq> None
   \<and> tagPath demo_env ''/secret'' (fs demo_env ''/secret'') [] False False ''dynamic:SHA256'' demo_state
     = (Some (PathError EACCES), demo_state)
   \<and> tagEachPath demo_env [] False False ''dynamic:SHA256'' [''/secret'', ''/ok''] demo_state False
     = tagEachPath demo_env [] False False ''dynamic:SHA256'' [''/ok'']
         (log_Warnf ''/secret: permisison denied'' demo_state) True
   \<and> tagPath demo_env ''/faulty'' (fs demo_env ''/faulty'') [] False False ''dynamic:SHA256'' demo_state
     = (Some (PathError (OtherErrno 5)), demo_state)
   \<and> tagAllPaths demo_env [] False False ''dynamic:SHA256'' [''/faulty'', ''/ok''] demo_state False
     = (Some (Errorf ''/faulty: could not stat file''), demo_state)"
  using tagAllPaths_error_policy [OF demo_missing, of "[''/ok'']" False]
        tagAllPaths_error_policy [OF demo_secret, of "[''/ok'']" False]
        tagAllPaths_error_policy [OF demo_faulty, of "[''/ok'']" False]
        demo_missing demo_secret demo_faulty
  by simp

lemma legal_names_no_leading_equals:
  assumes "list_all (\<lambda>t. validateTagName (snd t)) (tag_tbl db)"
  shows "find (\<lambda>t. snd t = CHR ''='' # s) (tag_tbl db) = None"
proof -
  have "\<not> validateTagName (CHR ''='' # s)"
    by (simp add: validateTagName_def illegal_tag_char_def)
  with assms show ?thesis
    by (auto simp: find_None_iff list_all_iff)
qed

lemma splitTagArg_leading_equals: "splitTagArg (CHR ''='' # s) = (CHR ''='' # s, [])"
  by (simp add: splitTagArg_def)

text \<open>
  C8. In a store whose tag names are all legal, a tag argument that begins with \<open>=\<close> is
  taken whole as the tag name (the index of \<open>=\<close> is 0), no such tag is found, and the
  argument is reported and not applied: with \<open>autoCreateTags\<close> the creation is refused
  and the command ends with that error; without, there is a warning, \<open>wereErrors\<close> is set
  and the loop goes on with no pair added.
\<close>

theorem leading_equals_reported:
  assumes "list_all (\<lambda>t. validateTagName (snd t)) (tag_tbl (store st))"
  shows "tagArgsLoop env autoCreateTags autoCreateValues ((CHR ''='' # s) # rest) st wereErrors pairs =
           (case store_fault env (Call_TagByName (CHR ''='' # s)) of
              Some e \<Rightarrow> (Some (Errorf (''could not look up tag '' @ quoted (CHR ''='' # s))), st, wereErrors, pairs)
            | None \<Rightarrow>
                if autoCreateTags
                then (Some (Errorf (''could not create tag '' @ quoted (CHR ''='' # s))), st, wereErrors, pairs)
                else tagArgsLoop env autoCreateTags autoCreateValues rest
                       (log_Warnf (''no such tag '' @ quoted (CHR ''='' # s) @ ''.'') st) True pairs)"
proof (cases "store_fault env (Call_TagByName (CHR ''='' # s))")
  case (Some e)
  then show ?thesis
    by (simp add: splitTagArg_leading_equals getTag_def store_TagByName_def)
next
  case None
  have nf: "find (\<lambda>t. snd t = CHR ''='' # s) (tag_tbl (store st)) = None"
    using assms by (rule legal_names_no_leading_equals)
  have g: "getTag env st (CHR ''='' # s) = Inr None"
    using None nf by (simp add: getTag_def store_TagByName_def)
  have inv: "\<not> validateTagName (CHR ''='' # s)"
    by (simp add: validateTagName_def illegal_tag_char_def)
  have c: "createTag env st (CHR ''='' # s) = Inl (Errorf (''could not create tag '' @ quoted (CHR ''='' # s)))"
    using inv by (simp add: createTag_def store_AddTag_def)
  show ?thesis
    using None g c by (simp add: splitTagArg_leading_equals resolveTag_def)
qed

theorem leading_equals_reported_witness:
  "list_all (\<lambda>t. validateTagName (snd t)) (tag_tbl (store demo_state))
   \<and> tagArgsLoop demo_env True True [''=landscape''] demo_state False []
       = (Some (Errorf (''could not create tag '' @ quoted ''=landscape'')), demo_state, False, [])
   \<and> tagArgsLoop demo_env False True [''=landscape''] demo_state False []
       = (None, log_Warnf (''no such tag '' @ quoted ''=landscape'' @ ''.'') demo_state, True, [])"
proof -
  have legal: "list_all (\<lambda>t. validateTagName (snd t)) (tag_tbl (store demo_state))"
    by (simp add: demo_state_def chain_db_def validateTagName_def illegal_tag_char_def)
  have nofault: "store_fault demo_env (Call_TagByName ''=landscape'') = None"
    by (simp add: demo_env_def)
  show ?thesis
    using legal nofault
      leading_equals_reported [OF legal, of demo_env True True "''landscape''" "[]" False "[]"]
      leading_equals_reported [OF legal, of demo_env False True "''landscape''" "[]" False "[]"]
    by simp
qed

text \<open>
  Where the two iterations stand in the commands: \<open>tagPaths\<close> reads three settings, resolves
  the tag arguments, returns at once if that fails, and otherwise tags the paths with the
  pairs and the \<open>wereErrors\<close> it has; \<open>tagFrom\<close> tags the paths with the pairs of the
  source file.
\<close>

lemma tagPaths_runs_iteration:
  assumes "SettingAsString env ''fingerprintAlgorithm'' = Inr alg"
    and "SettingAsBool env ''autoCreateTags'' = Inr act"
    and "SettingAsBool env ''autoCreateValues'' = Inr acv"
  shows "tagPaths env st tagArgs paths explicit recursive =
           (case tagArgsLoop env act acv tagArgs st False [] of
              (Some err, st1, wereErrors, pairs) \<Rightarrow> (Some err, st1)
            | (None, st1, wereErrors, pairs) \<Rightarrow>
                tagAllPaths env pairs explicit recursive alg paths st1 wereErrors)"
  using assms by (simp add: tagPaths_def)

lemma tagFrom_runs_loop:
  assumes "SettingAsString env ''fingerprintAlgorithm'' = Inr alg"
    and "store_FileByPath env (store st) fromPath = Inr (Some f)"
    and "store_FileTagsByFileId env (store st) (File_Id f) True = Inr fileTags"
  shows "tagFrom env st fromPath paths explicit recursive =
           tagAllPaths env
             (map (\<lambda>fileTag. \<lparr>TagId = FileTag_TagId fileTag, ValueId = FileTag_ValueId fileTag\<rparr>) fileTags)
             explicit recursive alg paths st False"
  using assms by (simp add: tagFrom_def)

section \<open>Properties of the query language\<close>

lemma plain_one: "plain_char c \<Longrightarrow> one_char_op c = None"
  by (auto simp: plain_char_def one_char_op_def)

lemma plain_not_eq: "plain_char c \<Longrightarrow> c \<noteq> CHR ''=''"
  by (auto simp: plain_char_def)

lemma plain_not_space: "plain_char c \<Longrightarrow> \<not> isSpace c"
  by (auto simp: plain_char_def)

lemma two_char_not_eq: "d \<noteq> CHR ''='' \<Longrightarrow> two_char_op c d = None"
  by (simp add: two_char_op_def)

lemma lex_plain_end: "list_all plain_char w \<Longrightarrow> lex acc w = flush (acc @ w)"
proof (induction w arbitrary: acc)
  case Nil
  then show ?case by simp
next
  case (Cons c w)
  show ?case
  proof (cases w)
    case Nil
    with Cons.prems show ?thesis by (simp add: plain_one plain_not_space)
  next
    case (Cons d w')
    with Cons.prems have "plain_char c" "plain_char d" by simp_all
    then have "lex acc (c # d # w') = lex (acc @ [c]) (d # w')"
      by (simp add: plain_one plain_not_space two_char_not_eq plain_not_eq)
    with Cons.IH[of "acc @ [c]"] Cons.prems Cons show ?thesis by simp
  qed
qed

lemma lex_plain_then: 
  "list_all plain_char w \<Longrightarrow> d \<noteq> CHR ''='' \<Longrightarrow> lex acc (w @ d # rest) = lex (acc @ w) (d # rest)"
proof (induction w arbitrary: acc)
  case Nil
  then show ?case by simp
next
  case (Cons c w)
  then have pc: "plain_char c" by simp
  show ?case
  proof (cases w)
    case Nil
    with pc Cons.prems show ?thesis
      by (simp add: plain_one plain_not_space two_char_not_eq)
  next
    case (Cons e w')
    with Cons.prems have "plain_char e" by simp
    with pc have "lex acc (c # e # w' @ d # rest) = lex (acc @ [c]) (e # w' @ d # rest)"
      by (simp add: plain_one plain_not_space two_char_not_eq plain_not_eq)
    with Cons.IH[of "acc @ [c]"] Cons.prems Cons show ?thesis by simp
  qed
qed

lemma lex_space: "lex acc (CHR '' '' # c # rest) = flush acc @ lex [] (c # rest)"
  by (simp add: two_char_op_def one_char_op_def isSpace_def)

lemma lex_word_space:
  assumes "list_all plain_char w"
  shows "lex acc (w @ CHR '' '' # c # rest) = flush (acc @ w) @ lex [] (c # rest)"
proof -
  have "lex acc (w @ CHR '' '' # c # rest) = lex (acc @ w) (CHR '' '' # c # rest)"
    using assms by (rule lex_plain_then) simp
  also have "\<dots> = flush (acc @ w) @ lex [] (c # rest)"
    by (rule lex_space)
  finally show ?thesis .
qed

lemma lex_symbol: "lex [] (op_symbol opr) = [TCmp opr]"
  by (cases opr) (simp_all add: op_symbol_def two_char_op_def one_char_op_def flush_def)

lemma lex_symbol_space: "lex [] (op_symbol opr @ CHR '' '' # c # rest) = TCmp opr # lex [] (c # rest)"
  by (cases opr) (simp_all add: op_symbol_def two_char_op_def one_char_op_def flush_def isSpace_def)

lemma alias_plain: "list_all plain_char (op_alias opr)"
  by (cases opr) (simp_all add: op_alias_def plain_char_def isSpace_def)

lemma alias_token: "word_token (op_alias opr) = TCmp opr"
  by (cases opr) (simp_all add: op_alias_def word_token_def)

lemma flush_word: "is_word w \<Longrightarrow> flush w = [TSym w]"
  by (simp add: is_word_def flush_def)

lemma lex_word: "is_word w \<Longrightarrow> lex [] w = [TSym w]"
  using lex_plain_end[of w "[]"] by (simp add: flush_word is_word_def)

lemma lex_spaced_symbol:
  assumes "is_word t" "is_word v"
  shows "lex [] (t @ '' '' @ op_symbol opr @ '' '' @ v) = [TSym t, TCmp opr, TSym v]"
proof -
  from assms(2) obtain c v' where v: "v = c # v'" by (cases v) (auto simp: is_word_def)
  have s: "\<exists>e r. op_symbol opr = e # r" by (cases opr) (simp_all add: op_symbol_def)
  then obtain e r where sym: "op_symbol opr = e # r" by blast
  have "lex [] (t @ CHR '' '' # e # (r @ CHR '' '' # v)) = flush ([] @ t) @ lex [] (e # (r @ CHR '' '' # v))"
    using assms(1) by (intro lex_word_space) (simp add: is_word_def)
  moreover have "lex [] (e # (r @ CHR '' '' # v)) = TCmp opr # lex [] v"
    using lex_symbol_space[of opr c v'] sym v by simp
  ultimately show ?thesis
    using assms sym by (simp add: flush_word lex_word)
qed

lemma lex_spaced_alias:
  assumes "is_word t" "is_word v"
  shows "lex [] (t @ '' '' @ op_alias opr @ '' '' @ v) = [TSym t, TCmp opr, TSym v]"
proof -
  from assms(2) obtain c v' where v: "v = c # v'" by (cases v) (auto simp: is_word_def)
  have "\<exists>e r. op_alias opr = e # r" by (cases opr) (simp_all add: op_alias_def)
  then obtain e r where al: "op_alias opr = e # r" by blast
  have first: "lex [] (t @ CHR '' '' # e # (r @ CHR '' '' # v))
                 = flush ([] @ t) @ lex [] (e # (r @ CHR '' '' # v))"
    using assms(1) by (intro lex_word_space) (simp add: is_word_def)
  have "lex [] (op_alias opr @ CHR '' '' # c # v') = flush ([] @ op_alias opr) @ lex [] (c # v')"
    by (intro lex_word_space alias_plain)
  moreover have "flush (op_alias opr) = [TCmp opr]"
    by (cases opr) (simp_all add: flush_def op_alias_def word_token_def)
  ultimately have second: "lex [] (e # (r @ CHR '' '' # v)) = TCmp opr # lex [] v"
    using al v by simp
  show ?thesis
    using first second assms al by (simp add: flush_word lex_word)
qed

text \<open>
  C5. For every database, a comparison of a tag word with a value word gives the same
  files-command output in its three forms: three arguments with the operator symbol, one
  argument with spaces, and one argument with the word alias. All three have the same
  token stream; other arguments may come before and after.
\<close>

theorem comparison_forms_agree:
  assumes "is_word t" and "is_word v"
  shows "tokenize (before @ [t, op_symbol opr, v] @ after)
           = tokenize (before @ [t @ '' '' @ op_symbol opr @ '' '' @ v] @ after)
       \<and> tokenize (before @ [t, op_symbol opr, v] @ after)
           = tokenize (before @ [t @ '' '' @ op_alias opr @ '' '' @ v] @ after)
       \<and> files_output db (before @ [t, op_symbol opr, v] @ after)
           = files_output db (before @ [t @ '' '' @ op_symbol opr @ '' '' @ v] @ after)
       \<and> files_output db (before @ [t @ '' '' @ op_symbol opr @ '' '' @ v] @ after)
           = files_output db (before @ [t @ '' '' @ op_alias opr @ '' '' @ v] @ after)"
proof -
  have a: "tokenize (before @ [t, op_symbol opr, v] @ after)
           = tokenize before @ [TSym t, TCmp opr, TSym v] @ tokenize after"
    using assms by (simp add: tokenize_def lex_word lex_symbol)
  have b: "tokenize (before @ [t @ '' '' @ op_symbol opr @ '' '' @ v] @ after)
           = tokenize before @ [TSym t, TCmp opr, TSym v] @ tokenize after"
    using lex_spaced_symbol[OF assms] by (simp add: tokenize_def)
  have c: "tokenize (before @ [t @ '' '' @ op_alias opr @ '' '' @ v] @ after)
           = tokenize before @ [TSym t, TCmp opr, TSym v] @ tokenize after"
    using lex_spaced_alias[OF assms] by (simp add: tokenize_def)
  from a b c show ?thesis by (simp add: files_output_def)
qed


lemma size_is_word: "is_word ''size''" 
  by (simp add: is_word_def plain_char_def isSpace_def word_token_def)

lemma hundred_is_word: "is_word ''100''" 
  by (simp add: is_word_def plain_char_def isSpace_def word_token_def)

lemma tests_equals_output: "files_output tests_db [''size'', ''='', ''100''] = Inr ''/tmp/b\<newline>''"
  by code_simp

theorem comparison_forms_agree_witness:
  "is_word ''size'' \<and> is_word ''100''
   \<and> tokenize [''size'', ''='', ''100''] = tokenize [''size = 100'']
   \<and> tokenize [''size'', ''='', ''100''] = tokenize [''size eq 100'']
   \<and> files_output tests_db [''size = 100''] = Inr ''/tmp/b\<newline>''
   \<and> files_output tests_db [''size eq 100''] = Inr ''/tmp/b\<newline>''
   \<and> files_output tests_db [''not'', ''size'', ''!='', ''100'']
       = files_output tests_db [''not'', ''size != 100'']
   \<and> files_output tests_db [''not'', ''size != 100'']
       = files_output tests_db [''not'', ''size ne 100'']"
proof -
  have eq: "tokenize [''size'', ''='', ''100''] = tokenize [''size = 100'']
     \<and> tokenize [''size'', ''='', ''100''] = tokenize [''size eq 100'']
     \<and> files_output tests_db [''size'', ''='', ''100''] = files_output tests_db [''size = 100'']
     \<and> files_output tests_db [''size = 100''] = files_output tests_db [''size eq 100'']"
    using comparison_forms_agree [OF size_is_word hundred_is_word, of "[]" Eq "[]" tests_db]
    by (auto simp: op_symbol_def op_alias_def)
  have ne: "tokenize [''not'', ''size'', ''!='', ''100''] = tokenize [''not'', ''size != 100'']
     \<and> tokenize [''not'', ''size'', ''!='', ''100''] = tokenize [''not'', ''size ne 100'']
     \<and> files_output tests_db [''not'', ''size'', ''!='', ''100'']
         = files_output tests_db [''not'', ''size != 100'']
     \<and> files_output tests_db [''not'', ''size != 100'']
         = files_output tests_db [''not'', ''size ne 100'']"
    using comparison_forms_agree [OF size_is_word hundred_is_word, of "[''not'']" Ne "[]" tests_db]
    by (auto simp: op_symbol_def op_alias_def)
  from eq ne size_is_word hundred_is_word tests_equals_output show ?thesis by metis
qed

lemma dec_less_value: "dec_less x y = (dec_value x < dec_value y)"
proof -
  have "(of_int (fst x) / 10 ^ snd x < (of_int (fst y) / 10 ^ snd y :: rat))
        = (of_int (fst x) * 10 ^ snd y < (of_int (fst y) * 10 ^ snd x :: rat))"
    by (simp add: divide_less_eq less_divide_eq mult.commute)
  also have "\<dots> = (of_int (fst x * 10 ^ snd y) < (of_int (fst y * 10 ^ snd x) :: rat))"
    by simp
  also have "\<dots> = (fst x * 10 ^ snd y < fst y * 10 ^ snd x)"
    by (simp only: of_int_less_iff)
  finally show ?thesis by (simp add: dec_less_def dec_value_def)
qed

lemma str_less_total: "(\<not> str_less b a) = (str_less a b \<or> a = b)"
proof (induction a b rule: str_less.induct)
  case (4 x xs y ys)
  then show ?case by (auto simp: of_char_eq_iff)
qed simp_all

text \<open>
  C6. An ordering comparison (\<open><\<close>, \<open>>\<close>, \<open><=\<close>, \<open>>=\<close>, and \<open>lt\<close>, \<open>gt\<close>, \<open>le\<close>, \<open>ge\<close>,
  which lex to the same operator) compares the numbers when the stored value and the
  literal both parse as signed decimals, and the strings lexicographically otherwise.
\<close>

theorem ordering_comparisons:
  assumes "opr \<in> {Lt, Gt, Le, Ge}"
  shows "(parse_decimal stored = Some x \<and> parse_decimal lit = Some y \<longrightarrow>
            compare_values opr stored lit = holds_num opr (dec_value x) (dec_value y))
       \<and> (parse_decimal stored = None \<or> parse_decimal lit = None \<longrightarrow>
            compare_values opr stored lit = holds_lex opr stored lit)
       \<and> lex [] (op_symbol opr) = [TCmp opr]
       \<and> word_token (op_alias opr) = TCmp opr"
proof -
  have num: "compare_values opr stored lit = holds_num opr (dec_value x) (dec_value y)"
    if "parse_decimal stored = Some x" "parse_decimal lit = Some y"
    using that assms
    by (auto simp: holds_num_def less_value_def dec_less_value)
  have lexi: "compare_values opr stored lit = holds_lex opr stored lit"
    if "parse_decimal stored = None \<or> parse_decimal lit = None"
    using that assms str_less_total[of stored lit] str_less_total[of lit stored]
    by (auto simp: holds_lex_def less_value_def split: option.splits)
  from num lexi lex_symbol alias_token show ?thesis by blast
qed


lemma parse_99: "parse_decimal ''99'' = Some (99, 0)"
  by (simp add: parse_decimal_def parse_unsigned_def digit_val_def)

lemma parse_100: "parse_decimal ''100'' = Some (100, 0)"
  by (simp add: parse_decimal_def parse_unsigned_def digit_val_def)

lemma parse_abc: "parse_decimal ''abc'' = None"
  by (simp add: parse_decimal_def parse_unsigned_def digit_val_def)

lemma tests_less_output: "files_output tests_db [''size'', ''<'', ''100''] = Inr ''/tmp/a\<newline>''"
  by code_simp

lemma tests_less_matches: "matches tests_db (Comparison ''size'' Lt ''100'') 1"
  by code_simp

theorem ordering_comparisons_witness:
  "Lt \<in> {Lt, Gt, Le, Ge}
   \<and> parse_decimal ''99'' = Some (99, 0) \<and> parse_decimal ''100'' = Some (100, 0)
   \<and> compare_values Lt ''99'' ''100''
   \<and> \<not> str_less ''99'' ''100''
   \<and> parse_decimal ''abc'' = None
   \<and> compare_values Lt ''abc'' ''abd''
   \<and> matches tests_db (Comparison ''size'' Lt ''100'') 1
   \<and> files_output tests_db [''size'', ''<'', ''100''] = Inr ''/tmp/a\<newline>''"
proof -
  have m: "Lt \<in> {Lt, Gt, Le, Ge}" by simp
  have n: "compare_values Lt ''99'' ''100''"
    using ordering_comparisons [OF m, of "''99''" "(99, 0)" "''100''" "(100, 0)"] parse_99 parse_100
    by (simp add: holds_num_def dec_value_def)
  have l: "compare_values Lt ''abc'' ''abd''"
    using ordering_comparisons [OF m, of "''abc''" "(0, 0)" "''abd''" "(0, 0)"] parse_abc
    by (simp add: holds_lex_def)
  have s: "\<not> str_less ''99'' ''100''" by simp
  from m n l s parse_99 parse_100 parse_abc tests_less_matches tests_less_output
  show ?thesis by blast
qed

end
